theory Spec2Isabelle
  imports Main "HOL-Library.List_Lexorder" "HOL-Library.Char_ord" "HOL-Library.Word"
begin

section \<open>Errors\<close>

text \<open>
  Every exception the TypeScript can raise is a value of \<open>error\<close>; an asynchronous
  function that may reject returns \<open>error + 'a\<close> with \<open>Inl\<close> for the rejection.
  \<^item> \<open>NetworkError\<close>: a request that failed for lack of connectivity;
  \<^item> \<open>SimpleError code\<close>: a \<^verbatim>\<open>SimpleError\<close> (the server's refusals, and
    \<^verbatim>\<open>not_supported\<close> of \<^verbatim>\<open>getDatabase\<close>);
  \<^item> \<open>DOMException name\<close>: what IndexedDB raises (\<^verbatim>\<open>NotFoundError\<close>,
    \<^verbatim>\<open>ConstraintError\<close>, \<^verbatim>\<open>DataError\<close>);
  \<^item> \<open>Error message\<close>: a plain JavaScript \<^verbatim>\<open>Error\<close>.
\<close>

datatype error =
    NetworkError
  | SimpleError string
  | DOMException string
  | Error string

text \<open>
  Modelled from the spec: \<^verbatim>\<open>Request.isNetworkError\<close> of the networking package, the
  predicate that tells "network unreachable" from every other failure.
\<close>

fun isNetworkError :: "error \<Rightarrow> bool" where
  "isNetworkError NetworkError = True"
| "isNetworkError _ = False"

section \<open>Sodium: sealed boxes\<close>

text \<open>
  A byte is a \<open>char\<close>. Keys and ciphertexts travel as base64 text, a \<open>string\<close>. A
  message is a JavaScript string, which is a list of UTF-16 code units.
\<close>

type_synonym bytes = "char list"
type_synonym js_string = "16 word list"

text \<open>
  Modelled from the spec: \<^verbatim>\<open>Buffer.from(message, "utf8")\<close> and \<^verbatim>\<open>.toString("utf8")\<close>, the
  UTF-8 codec of \<^verbatim>\<open>Buffer\<close>, which is not code of the repository. Encoding reads the
  string as UTF-16: a high surrogate followed by a low one is one code point, any other
  code unit is a code point of its own, and a surrogate that is not part of a pair is
  replaced by U+FFFD; each code point is written in one to four bytes. Decoding reads
  the well-formed byte sequences (shortest form, no surrogates, at most U+10FFFF) and
  gives U+FFFD for every maximal ill-formed one, as the Encoding standard has it;
  implementations differ in the number of U+FFFD they give for ill-formed bytes, and
  nothing below depends on it. A code point above U+FFFF becomes a surrogate pair.
\<close>

definition is_high :: "nat \<Rightarrow> bool" where
  "is_high u \<longleftrightarrow> 0xD800 \<le> u \<and> u < 0xDC00"

definition is_low :: "nat \<Rightarrow> bool" where
  "is_low u \<longleftrightarrow> 0xDC00 \<le> u \<and> u < 0xE000"

fun code_points :: "nat list \<Rightarrow> nat list" where
  "code_points [] = []"
| "code_points [u] = [if is_high u \<or> is_low u then 0xFFFD else u]"
| "code_points (u # v # us) =
     (if is_high u \<and> is_low v
      then (0x10000 + (u - 0xD800) * 0x400 + (v - 0xDC00)) # code_points us
      else (if is_high u \<or> is_low u then 0xFFFD else u) # code_points (v # us))"

definition code_units :: "nat \<Rightarrow> nat list" where
  "code_units cp =
     (if cp < 0x10000 then [cp]
      else [0xD800 + (cp - 0x10000) div 0x400, 0xDC00 + (cp - 0x10000) mod 0x400])"

definition utf8_bytes :: "nat \<Rightarrow> nat list" where
  "utf8_bytes cp =
     (if cp < 0x80 then [cp]
      else if cp < 0x800 then [0xC0 + cp div 0x40, 0x80 + cp mod 0x40]
      else if cp < 0x10000 then
        [0xE0 + cp div 0x1000, 0x80 + cp div 0x40 mod 0x40, 0x80 + cp mod 0x40]
      else [0xF0 + cp div 0x40000, 0x80 + cp div 0x1000 mod 0x40,
            0x80 + cp div 0x40 mod 0x40, 0x80 + cp mod 0x40])"

definition continuation :: "nat \<Rightarrow> bool" where
  "continuation b \<longleftrightarrow> 0x80 \<le> b \<and> b \<le> 0xBF"

text \<open>
  The byte that may follow a lead byte of a sequence of three or four: the bounds that
  exclude the overlong forms (after \<open>E0\<close>, \<open>F0\<close>), the surrogates (after \<open>ED\<close>) and
  what lies above U+10FFFF (after \<open>F4\<close>).
\<close>

definition second_byte :: "nat \<Rightarrow> nat \<Rightarrow> bool" where
  "second_byte lead b \<longleftrightarrow>
     (if lead = 0xE0 then 0xA0 else if lead = 0xF0 then 0x90 else 0x80) \<le> b
     \<and> b \<le> (if lead = 0xED then 0x9F else if lead = 0xF4 then 0x8F else 0xBF)"

fun utf8_code_points :: "nat list \<Rightarrow> nat list" where
  "utf8_code_points [] = []"
| "utf8_code_points (b # bs) =
     (if b < 0x80 then b # utf8_code_points bs
      else if 0xC2 \<le> b \<and> b \<le> 0xDF then
        (case bs of
           [] \<Rightarrow> [0xFFFD]
         | c1 # r1 \<Rightarrow>
             if continuation c1
             then ((b - 0xC0) * 0x40 + (c1 - 0x80)) # utf8_code_points r1
             else 0xFFFD # utf8_code_points bs)
      else if 0xE0 \<le> b \<and> b \<le> 0xEF then
        (case bs of
           [] \<Rightarrow> [0xFFFD]
         | c1 # r1 \<Rightarrow>
             if second_byte b c1 then
               (case r1 of
                  [] \<Rightarrow> [0xFFFD]
                | c2 # r2 \<Rightarrow>
                    if continuation c2
                    then ((b - 0xE0) * 0x1000 + (c1 - 0x80) * 0x40 + (c2 - 0x80))
                         # utf8_code_points r2
                    else 0xFFFD # utf8_code_points r1)
             else 0xFFFD # utf8_code_points bs)
      else if 0xF0 \<le> b \<and> b \<le> 0xF4 then
        (case bs of
           [] \<Rightarrow> [0xFFFD]
         | c1 # r1 \<Rightarrow>
             if second_byte b c1 then
               (case r1 of
                  [] \<Rightarrow> [0xFFFD]
                | c2 # r2 \<Rightarrow>
                    if continuation c2 then
                      (case r2 of
                         [] \<Rightarrow> [0xFFFD]
                       | c3 # r3 \<Rightarrow>
                           if continuation c3
                           then ((b - 0xF0) * 0x40000 + (c1 - 0x80) * 0x1000
                                 + (c2 - 0x80) * 0x40 + (c3 - 0x80))
                                # utf8_code_points r3
                           else 0xFFFD # utf8_code_points r2)
                    else 0xFFFD # utf8_code_points r1)
             else 0xFFFD # utf8_code_points bs)
      else 0xFFFD # utf8_code_points bs)"

definition utf8_encode :: "js_string \<Rightarrow> bytes" where
  "utf8_encode m = map char_of (concat (map utf8_bytes (code_points (map unat m))))"

definition utf8_decode :: "bytes \<Rightarrow> js_string" where
  "utf8_decode bs = map of_nat (concat (map code_units (utf8_code_points (map of_char bs))))"

text \<open>
  A string is well formed when it has no surrogate outside a pair, and
  \<open>toWellFormed\<close> is the string with U+FFFD in the place of each such surrogate
  (\<^verbatim>\<open>String.prototype.isWellFormed\<close> and \<^verbatim>\<open>toWellFormed\<close>).
\<close>

fun well_formed :: "nat list \<Rightarrow> bool" where
  "well_formed [] = True"
| "well_formed [u] = (\<not> is_high u \<and> \<not> is_low u)"
| "well_formed (u # v # us) =
     (if is_high u then is_low v \<and> well_formed us
      else \<not> is_low u \<and> well_formed (v # us))"

definition isWellFormed :: "js_string \<Rightarrow> bool" where
  "isWellFormed m = well_formed (map unat m)"

definition toWellFormed :: "js_string \<Rightarrow> js_string" where
  "toWellFormed m = map of_nat (concat (map code_units (code_points (map unat m))))"

text \<open>A Unicode scalar value: a code point that is not a surrogate.\<close>

definition scalar :: "nat \<Rightarrow> bool" where
  "scalar cp \<longleftrightarrow> cp < 0x110000 \<and> \<not> (0xD800 \<le> cp \<and> cp < 0xE000)"

text \<open>
  \<^verbatim>\<open>SodiumStatic\<close> wraps libsodium. The library and the base64 codec of \<^verbatim>\<open>Buffer\<close> are
  not code of the repository, so they are the fields of \<open>libsodium\<close>: the wrappers are
  modelled for any implementation of them.
  \<^verbatim>\<open>crypto_box_seal\<close> draws an ephemeral key pair, which is its first argument here.
  Both primitives raise on a key of the wrong length, and opening raises on a
  ciphertext that is too short or does not authenticate.
\<close>

record libsodium =
  crypto_box_seal :: "bytes \<Rightarrow> bytes \<Rightarrow> bytes \<Rightarrow> error + bytes"
  crypto_box_seal_open :: "bytes \<Rightarrow> bytes \<Rightarrow> bytes \<Rightarrow> error + bytes"
  from_base64 :: "string \<Rightarrow> bytes"
  to_base64 :: "bytes \<Rightarrow> string"

text \<open>
  \<^verbatim>\<open>Buffer.from(sodium.crypto_box_seal(Buffer.from(message, "utf8"),
     Buffer.from(publicKey, "base64"))).toString("base64")\<close>
\<close>

definition sealMessage :: "libsodium \<Rightarrow> bytes \<Rightarrow> js_string \<Rightarrow> string \<Rightarrow> error + string" where
  "sealMessage lib ephemeral message publicKey =
     (case crypto_box_seal lib ephemeral (utf8_encode message) (from_base64 lib publicKey) of
        Inl e \<Rightarrow> Inl e
      | Inr c \<Rightarrow> Inr (to_base64 lib c))"

text \<open>
  \<^verbatim>\<open>Buffer.from(sodium.crypto_box_seal_open(Buffer.from(ciphertext, "base64"),
     Buffer.from(publicKey, "base64"), Buffer.from(privateKey, "base64"))).toString("utf8")\<close>
\<close>

definition unsealMessage :: "libsodium \<Rightarrow> string \<Rightarrow> string \<Rightarrow> string \<Rightarrow> error + js_string" where
  "unsealMessage lib ciphertext publicKey privateKey =
     (case crypto_box_seal_open lib (from_base64 lib ciphertext)
             (from_base64 lib publicKey) (from_base64 lib privateKey) of
        Inl e \<Rightarrow> Inl e
      | Inr m \<Rightarrow> Inr (utf8_decode m))"

text \<open>
  A toy implementation of the library, for running the wrappers: the "ciphertext" is the
  message behind the recipient's public key, a key pair is a public key and its reverse,
  and the base64 codec is the identity.
\<close>

definition toy_sodium :: libsodium where
  "toy_sodium =
     \<lparr> crypto_box_seal = (\<lambda>ephemeral m pk. Inr (pk @ m)),
       crypto_box_seal_open = (\<lambda>c pk sk.
          if sk = rev pk \<and> take (length pk) c = pk
          then Inr (drop (length pk) c) else Inl (Error ''incorrect key pair for the given ciphertext'')),
       from_base64 = (\<lambda>s. s), to_base64 = (\<lambda>b. b) \<rparr>"

section \<open>MemberManager: decrypting a batch of members\<close>

record key_pair =
  publicKey :: string
  privateKey :: string

text \<open>
  \<^verbatim>\<open>EncryptedMember\<close> and \<^verbatim>\<open>EncryptedMemberWithRegistrations\<close>: the fields the manager
  reads. \<open>encryptedForOrganization\<close> is \<^verbatim>\<open>string | null\<close>. The registrations
  (type \<open>'r\<close>) are copied, never inspected; \<^verbatim>\<open>EncryptedMember\<close> is the case where the
  manager does not read them.
\<close>

record 'r encrypted_member =
  em_id :: string
  encryptedForOrganization :: "string option"
  em_publicKey :: string
  em_registrations :: "'r list"

text \<open>\<^verbatim>\<open>Member\<close>: \<open>details\<close> is \<^verbatim>\<open>MemberDetails | undefined\<close>, the decrypted payload.\<close>

record 'd member =
  member_id :: string
  details :: "'d option"
  member_publicKey :: string

text \<open>
  \<^verbatim>\<open>MemberWithRegistrations\<close> adds the registrations and what \<^verbatim>\<open>fillGroups\<close> attaches.
\<close>

record ('d, 'r, 'a) member_with_registrations = "'d member" +
  registrations :: "'r list"
  attached :: "'a option"

text \<open>
  The collaborators of a decrypt batch: the organization's keychain item
  (\<^verbatim>\<open>Keychain.getItem\<close>, \<^verbatim>\<open>undefined\<close> when there is none), the session's
  \<^verbatim>\<open>decryptKeychainItem\<close>, the sodium library, and \<open>decode_details\<close> for
  \<^verbatim>\<open>JSON.parse\<close> followed by the \<^verbatim>\<open>VersionBoxDecoder\<close> of \<^verbatim>\<open>MemberDetails\<close>, which
  raises on malformed JSON and on a schema mismatch.
\<close>

record ('k, 'd) keychain_session =
  keychain_getItem :: "'k option"
  decryptKeychainItem :: "'k \<Rightarrow> error + key_pair"
  sodium :: libsodium
  decode_details :: "js_string \<Rightarrow> error + 'd"

text \<open>
  The body of the loop up to \<^verbatim>\<open>Member.create\<close>: \<^verbatim>\<open>!member.encryptedForOrganization\<close>
  holds for \<^verbatim>\<open>null\<close> and for the empty string (a warning, no payload); otherwise the
  \<^verbatim>\<open>try\<close> block unseals and decodes, and its \<^verbatim>\<open>catch\<close> logs and leaves
  \<open>decryptedDetails\<close> undefined.
\<close>

definition decryptDetails :: "('k, 'd) keychain_session \<Rightarrow> key_pair \<Rightarrow> string option \<Rightarrow> 'd option" where
  "decryptDetails session keyPair encrypted =
     (case encrypted of
        None \<Rightarrow> None
      | Some c \<Rightarrow>
          if c = [] then None
          else (case unsealMessage (sodium session) c (publicKey keyPair) (privateKey keyPair) of
                  Inl e \<Rightarrow> None
                | Inr json \<Rightarrow>
                    (case decode_details session json of
                       Inl e \<Rightarrow> None
                     | Inr d \<Rightarrow> Some d)))"

text \<open>
  The key pair of the batch: \<^verbatim>\<open>throw new Error("Missing organization keychain")\<close> when
  the keychain has no item, and whatever \<^verbatim>\<open>decryptKeychainItem\<close> raises.
\<close>

definition organizationKeyPair :: "('k, 'd) keychain_session \<Rightarrow> error + key_pair" where
  "organizationKeyPair session =
     (case keychain_getItem session of
        None \<Rightarrow> Inl (Error ''Missing organization keychain'')
      | Some item \<Rightarrow> decryptKeychainItem session item)"

definition decryptMembersWithoutRegistrations ::
  "('k, 'd) keychain_session \<Rightarrow> ('r, 'x) encrypted_member_scheme list \<Rightarrow> error + 'd member list" where
  "decryptMembersWithoutRegistrations session data =
     (case organizationKeyPair session of
        Inl e \<Rightarrow> Inl e
      | Inr keyPair \<Rightarrow>
          Inr (map (\<lambda>m. \<lparr> member_id = em_id m,
                           details = decryptDetails session keyPair (encryptedForOrganization m),
                           member_publicKey = em_publicKey m \<rparr>) data))"

text \<open>
  Modelled from the spec: \<^verbatim>\<open>MemberWithRegistrations.fillGroups\<close> (the structures
  package), the cross-reference resolution that attaches group metadata to an item. What
  it attaches is computed by \<open>resolve\<close> from the organization's groups and the member's
  registrations.
\<close>

definition fillGroups ::
  "('g \<Rightarrow> 'r list \<Rightarrow> 'a) \<Rightarrow> 'g \<Rightarrow> ('d, 'r, 'a) member_with_registrations
     \<Rightarrow> ('d, 'r, 'a) member_with_registrations" where
  "fillGroups resolve groups m = m\<lparr> attached := Some (resolve groups (registrations m)) \<rparr>"

definition decryptMembers ::
  "('k, 'd) keychain_session \<Rightarrow> ('g \<Rightarrow> 'r list \<Rightarrow> 'a) \<Rightarrow> 'g \<Rightarrow> 'r encrypted_member list
     \<Rightarrow> error + ('d, 'r, 'a) member_with_registrations list" where
  "decryptMembers session resolve groups data =
     (case organizationKeyPair session of
        Inl e \<Rightarrow> Inl e
      | Inr keyPair \<Rightarrow>
          Inr (map (\<lambda>m. fillGroups resolve groups
                           \<lparr> member_id = em_id m,
                             details = decryptDetails session keyPair (encryptedForOrganization m),
                             member_publicKey = em_publicKey m,
                             registrations = em_registrations m,
                             attached = None \<rparr>) data))"

text \<open>
  An envelope is well-formed for a key pair when it is present and unseals and decodes;
  it is corrupted when it is present and the \<^verbatim>\<open>try\<close> block raises.
\<close>

definition wellformed :: "('k, 'd) keychain_session \<Rightarrow> key_pair \<Rightarrow> string option \<Rightarrow> bool" where
  "wellformed session keyPair encrypted =
     (case encrypted of
        None \<Rightarrow> False
      | Some c \<Rightarrow> c \<noteq> [] \<and>
          (case unsealMessage (sodium session) c (publicKey keyPair) (privateKey keyPair) of
             Inl e \<Rightarrow> False
           | Inr json \<Rightarrow> (case decode_details session json of Inl e \<Rightarrow> False | Inr d \<Rightarrow> True)))"

definition corrupted :: "('k, 'd) keychain_session \<Rightarrow> key_pair \<Rightarrow> string option \<Rightarrow> bool" where
  "corrupted session keyPair encrypted =
     (case encrypted of
        None \<Rightarrow> False
      | Some c \<Rightarrow> c \<noteq> [] \<and>
          (case unsealMessage (sodium session) c (publicKey keyPair) (privateKey keyPair) of
             Inl e \<Rightarrow> True
           | Inr json \<Rightarrow> (case decode_details session json of Inl e \<Rightarrow> True | Inr d \<Rightarrow> False)))"

text \<open>
  A session for running the batch: the toy library, the key pair \<open>(''pk'', ''kp'')\<close>,
  and a decoder that accepts exactly the texts starting with a brace (the code unit
  \<open>0x7B\<close>).
\<close>

definition toy_session :: "(unit, js_string) keychain_session" where
  "toy_session =
     \<lparr> keychain_getItem = Some (),
       decryptKeychainItem = (\<lambda>_. Inr \<lparr> publicKey = ''pk'', privateKey = ''kp'' \<rparr>),
       sodium = toy_sodium,
       decode_details = (\<lambda>json. if take 1 json = [0x7B] then Inr json
                                 else Inl (SimpleError ''invalid_field'')) \<rparr>"

definition toy_member :: "string \<Rightarrow> string \<Rightarrow> nat encrypted_member" where
  "toy_member i c =
     \<lparr> em_id = i, encryptedForOrganization = Some c, em_publicKey = ''m'', em_registrations = [] \<rparr>"

text \<open>
  What the batch property says of an output list \<open>ms\<close> for inputs with the ids \<open>ids\<close>:
  one output per input in input order, the payload absent at index \<open>i\<close> and nowhere
  else, so \<open>N\<close> outputs carry a payload and one does not.
\<close>

definition one_absent :: "nat \<Rightarrow> nat \<Rightarrow> string list \<Rightarrow> ('d, 'x) member_scheme list \<Rightarrow> bool" where
  "one_absent N i ids ms \<longleftrightarrow>
     length ms = Suc N \<and> map member_id ms = ids
     \<and> (\<forall>j<Suc N. (details (ms ! j) = None) = (j = i))
     \<and> length (filter (\<lambda>m. details m \<noteq> None) ms) = N
     \<and> length (filter (\<lambda>m. details m = None) ms) = 1"

definition toy_batch :: "nat encrypted_member list" where
  "toy_batch = [toy_member ''1'' ''pk{a}'', toy_member ''2'' ''xx'', toy_member ''3'' ''pk{b}'']"

section \<open>Webshop structures\<close>

text \<open>\<^verbatim>\<open>export const Version = 125\<close>, the latest version of the structures.\<close>

definition Version :: nat where
  "Version = 125"

text \<open>
  A \<^verbatim>\<open>Date\<close> is its number of milliseconds. Of an order, a ticket and a ticket patch
  the manager reads the fields below; the rest of the structure is carried along as
  \<open>order_data\<close>, \<open>ticket_data\<close> and \<open>patch_data\<close>. \<^verbatim>\<open>order.number!\<close> and \<^verbatim>\<open>ticket.id!\<close>
  are non-null assertions of the type checker only, so both fields are optional; every
  field of a patch is optional, its \<^verbatim>\<open>secret\<close> included.
\<close>

type_synonym date = int

record order =
  order_id :: string
  order_number :: "int option"
  order_updatedAt :: date
  order_data :: string

record ticket =
  ticket_id :: "string option"
  secret :: string
  ticket_updatedAt :: date
  ticket_data :: string

record ticket_patch =
  patch_secret :: "string option"
  patch_data :: string

text \<open>
  \<^verbatim>\<open>lastFetchedOrder: { updatedAt: Date, number: number } | null | undefined\<close> and
  \<^verbatim>\<open>lastFetchedTicket: { updatedAt: Date, id: string } | null | undefined\<close>.
\<close>

record order_cursor =
  lastOrder_updatedAt :: date
  lastOrder_number :: "int option"

record ticket_cursor =
  lastTicket_updatedAt :: date
  lastTicket_id :: "string option"

datatype 'a js = Undefined | Null | Object 'a

text \<open>\<^verbatim>\<open>WebshopOrdersQuery\<close>, \<^verbatim>\<open>WebshopTicketsQuery\<close> and \<^verbatim>\<open>PaginatedResponse\<close>.\<close>

record orders_query =
  orders_updatedSince :: "date option"
  afterNumber :: "int option"

record tickets_query =
  tickets_updatedSince :: "date option"
  lastId :: "string option"

record ('a, 'q) paginated_response =
  results :: "'a list"
  next_query :: "'q option"

section \<open>The local database\<close>

text \<open>
  Modelled from the spec: IndexedDB, the browser's store behind the Local Durable Store,
  which is not code of the repository. An object store has an optional key path and at
  most one record per key, kept in key order (which is the order of \<^verbatim>\<open>getAll\<close>). A
  database has a version and the object stores that were created in it; the manager
  names four, and a store that was never created is \<open>None\<close>. What a store holds is the
  structure itself: \<^verbatim>\<open>encode\<close> and \<^verbatim>\<open>decode\<close> at one \<^verbatim>\<open>Version\<close> are taken to be
  inverse. The \<^verbatim>\<open>settings\<close> store holds the two cursors.
\<close>

record 'v object_store =
  keyPath :: "string option"
  records :: "(string \<times> 'v) list"

datatype setting = OrderCursor order_cursor | TicketCursor ticket_cursor

record idb =
  idb_version :: nat
  orders :: "order object_store option"
  tickets :: "ticket object_store option"
  ticketPatches :: "ticket_patch object_store option"
  settings :: "setting object_store option"

text \<open>A database that does not exist yet has version 0 and no object store.\<close>

definition no_database :: idb where
  "no_database = \<lparr> idb_version = 0, orders = None, tickets = None, ticketPatches = None,
                    settings = None \<rparr>"

text \<open>
  The value of a key path on an encoded structure, for the properties that hold a
  string: \<^verbatim>\<open>id\<close> of an order, \<^verbatim>\<open>secret\<close> and \<^verbatim>\<open>id\<close> of a ticket, \<^verbatim>\<open>secret\<close> of a patch.
\<close>

definition order_key :: "string \<Rightarrow> order \<Rightarrow> string option" where
  "order_key path v = (if path = ''id'' then Some (order_id v) else None)"

definition ticket_key :: "string \<Rightarrow> ticket \<Rightarrow> string option" where
  "ticket_key path v =
     (if path = ''secret'' then Some (secret v) else if path = ''id'' then ticket_id v else None)"

definition patch_key :: "string \<Rightarrow> ticket_patch \<Rightarrow> string option" where
  "patch_key path v = (if path = ''secret'' then patch_secret v else None)"

definition put_record :: "string \<Rightarrow> 'v \<Rightarrow> (string \<times> 'v) list \<Rightarrow> (string \<times> 'v) list" where
  "put_record k v rs = insort_key fst (k, v) (filter (\<lambda>r. fst r \<noteq> k) rs)"

text \<open>
  \<^verbatim>\<open>objectStore.put(value)\<close>: the key is the value of the store's key path; a store
  without a key path, or a value without that property, raises \<^verbatim>\<open>DataError\<close>.
\<close>

definition store_put ::
  "(string \<Rightarrow> 'v \<Rightarrow> string option) \<Rightarrow> 'v \<Rightarrow> 'v object_store \<Rightarrow> error + 'v object_store" where
  "store_put key_of v st =
     (case keyPath st of
        None \<Rightarrow> Inl (DOMException ''DataError'')
      | Some path \<Rightarrow>
          (case key_of path v of
             None \<Rightarrow> Inl (DOMException ''DataError'')
           | Some k \<Rightarrow> Inr (st\<lparr> records := put_record k v (records st) \<rparr>)))"

text \<open>\<^verbatim>\<open>objectStore.put(value, key)\<close>: a store with a key path takes no key.\<close>

definition store_put_key :: "'v \<Rightarrow> string \<Rightarrow> 'v object_store \<Rightarrow> error + 'v object_store" where
  "store_put_key v k st =
     (case keyPath st of
        Some path \<Rightarrow> Inl (DOMException ''DataError'')
      | None \<Rightarrow> Inr (st\<lparr> records := put_record k v (records st) \<rparr>))"

definition store_get :: "string \<Rightarrow> 'v object_store \<Rightarrow> 'v option" where
  "store_get k st = map_of (records st) k"

definition store_getAll :: "'v object_store \<Rightarrow> 'v list" where
  "store_getAll st = map snd (records st)"

definition store_delete :: "string \<Rightarrow> 'v object_store \<Rightarrow> 'v object_store" where
  "store_delete k st = st\<lparr> records := filter (\<lambda>r. fst r \<noteq> k) (records st) \<rparr>"

text \<open>\<^verbatim>\<open>db.createObjectStore(name, { keyPath })\<close>: \<^verbatim>\<open>ConstraintError\<close> when it exists.\<close>

definition createObjectStore ::
  "'v object_store option \<Rightarrow> string option \<Rightarrow> error + 'v object_store option" where
  "createObjectStore existing path =
     (case existing of
        Some st \<Rightarrow> Inl (DOMException ''ConstraintError'')
      | None \<Rightarrow> Inr (Some \<lparr> keyPath = path, records = [] \<rparr>))"

text \<open>\<^verbatim>\<open>transaction.objectStore(name).clear()\<close>: \<^verbatim>\<open>NotFoundError\<close> when it is missing.\<close>

definition clear_store :: "'v object_store option \<Rightarrow> error + 'v object_store option" where
  "clear_store existing =
     (case existing of
        None \<Rightarrow> Inl (DOMException ''NotFoundError'')
      | Some st \<Rightarrow> Inr (Some (st\<lparr> records := [] \<rparr>)))"

text \<open>
  The \<^verbatim>\<open>onupgradeneeded\<close> handler of \<^verbatim>\<open>getDatabase\<close>, on \<^verbatim>\<open>event.oldVersion\<close> and the
  database of the request. An exception leaves the handler at the call that raised it.
\<close>

definition onupgradeneeded :: "nat \<Rightarrow> idb \<Rightarrow> error + idb" where
  "onupgradeneeded oldVersion db =
     (if oldVersion < 1 then
        (case createObjectStore (orders db) (Some ''id'') of
           Inl e \<Rightarrow> Inl e
         | Inr os \<Rightarrow>
        (case createObjectStore (tickets db) (Some ''secret'') of
           Inl e \<Rightarrow> Inl e
         | Inr ts \<Rightarrow>
        (case createObjectStore (ticketPatches db) (Some ''secret'') of
           Inl e \<Rightarrow> Inl e
         | Inr ps \<Rightarrow>
        (case createObjectStore (settings db) None of
           Inl e \<Rightarrow> Inl e
         | Inr ss \<Rightarrow>
             Inr (db\<lparr> orders := os, tickets := ts, ticketPatches := ps, settings := ss \<rparr>)))))
      else
        (case clear_store (orders db) of
           Inl e \<Rightarrow> Inl e
         | Inr os \<Rightarrow>
        (case clear_store (tickets db) of
           Inl e \<Rightarrow> Inl e
         | Inr ts \<Rightarrow>
        (case clear_store (ticketPatches db) of
           Inl e \<Rightarrow> Inl e
         | Inr ps \<Rightarrow>
        (case clear_store (settings db) of
           Inl e \<Rightarrow> Inl e
         | Inr ss \<Rightarrow>
             Inr (db\<lparr> orders := os, tickets := ts, ticketPatches := ps, settings := ss \<rparr>))))))"

definition not_supported :: error where
  "not_supported = SimpleError ''not_supported''"

text \<open>
  Modelled from the spec: \<^verbatim>\<open>window.indexedDB.open(name, version)\<close> with the handlers
  \<^verbatim>\<open>getDatabase\<close> installs. \<open>None\<close> is a browser without a usable IndexedDB. The upgrade
  handler runs exactly when the version on disk is behind the requested one, and the
  database then takes the requested version; a handler that raises aborts the upgrade.
  Every failure reaches \<^verbatim>\<open>onerror\<close>, which rejects with \<^verbatim>\<open>not_supported\<close>.
\<close>

definition indexedDB_open :: "nat \<Rightarrow> idb option \<Rightarrow> error + idb" where
  "indexedDB_open version disk =
     (case disk of
        None \<Rightarrow> Inl not_supported
      | Some db \<Rightarrow>
          if version < idb_version db then Inl not_supported
          else if idb_version db < version then
            (case onupgradeneeded (idb_version db) db of
               Inl e \<Rightarrow> Inl not_supported
             | Inr db' \<Rightarrow> Inr (db'\<lparr> idb_version := version \<rparr>))
          else Inr db)"

text \<open>
  The layout the upgrade handler creates, at the current version: the state of the
  database of every manager whose browser has one, once it was opened.
\<close>

definition schema :: "idb \<Rightarrow> bool" where
  "schema db \<longleftrightarrow>
     idb_version db = Version
     \<and> map_option keyPath (orders db) = Some (Some ''id'')
     \<and> map_option keyPath (tickets db) = Some (Some ''secret'')
     \<and> map_option keyPath (ticketPatches db) = Some (Some ''secret'')
     \<and> map_option keyPath (settings db) = Some None"

section \<open>WebshopManager\<close>

text \<open>
  What a manager does to the world outside its fields, in the order it does it: the
  requests it sends (with their query or body), the transactions it opens on the
  database (the stores, and \<open>True\<close> for \<^verbatim>\<open>readwrite\<close>), and the events it publishes on
  \<^verbatim>\<open>ordersEventBus\<close>.
\<close>

datatype effect =
    GetOrders orders_query bool
  | GetTickets tickets_query bool
  | PatchTickets "ticket_patch list"
  | Transaction "string list" bool
  | OrdersFetched "order list"

text \<open>
  The fields of the manager the sync engine uses. \<open>indexedDB\<close> is the browser's database
  of this webshop (\<open>None\<close>: the browser has none) and \<open>database\<close> says whether the handle
  \<^verbatim>\<open>this.database\<close> is set.

  All asynchronous code of the manager shares one thread. A call that is awaited runs
  to its end where it is awaited. A call the source does not await
  (\<^verbatim>\<open>.catch(console.error)\<close>) runs in place up to its own first \<^verbatim>\<open>await\<close>; the rest
  of it runs when its caller gives up the thread, which is at the caller's next
  \<^verbatim>\<open>await\<close>, once the operation awaited there has been started, or else after the
  caller's last statement; its outcome is dropped. The state a function returns is the
  state once the calls it started have run.
\<close>

record manager =
  indexedDB :: "idb option"
  database :: bool
  lastFetchedOrder :: "order_cursor js"
  lastFetchedTicket :: "ticket_cursor js"
  isLoadingOrders :: bool
  isLoadingTickets :: bool
  savingTicketPatches :: bool
  effects :: "effect list"

definition emit :: "effect \<Rightarrow> manager \<Rightarrow> manager" where
  "emit e s = s\<lparr> effects := effects s @ [e] \<rparr>"

text \<open>
  \<^verbatim>\<open>getDatabase\<close>: the handle when it is set, else the outcome of opening the database
  at \<^verbatim>\<open>Version\<close>. \<^verbatim>\<open>databasePromise\<close> only lets callers that overlap share one open,
  and \<^verbatim>\<open>onerror\<close> deletes the database in development only; neither is modelled.
  Opening is taken to be done when \<^verbatim>\<open>getDatabase\<close> returns.
\<close>

definition getDatabase :: "manager \<Rightarrow> (error + idb) \<times> manager" where
  "getDatabase s =
     (if database s then
        (case indexedDB s of
           None \<Rightarrow> (Inl not_supported, s)
         | Some db \<Rightarrow> (Inr db, s))
      else
        (case indexedDB_open Version (indexedDB s) of
           Inl e \<Rightarrow> (Inl e, s)
         | Inr db \<Rightarrow> (Inr db, s\<lparr> indexedDB := Some db, database := True \<rparr>)))"

text \<open>
  The transactions. \<^verbatim>\<open>db.transaction(names, mode)\<close> raises \<^verbatim>\<open>NotFoundError\<close> when a
  store it names is missing; that happens in the executor of the promise, which then
  rejects. A transaction that was opened commits what was put into it, and IndexedDB
  runs the transactions on a store in the order in which they were opened: what a
  transaction writes is what every later one finds, so a transaction takes effect
  here where it is opened.
\<close>

definition readSettingKey :: "string \<Rightarrow> manager \<Rightarrow> (error + setting option) \<times> manager" where
  "readSettingKey key s =
     (case getDatabase s of
        (Inl e, s1) \<Rightarrow> (Inl e, s1)
      | (Inr db, s1) \<Rightarrow>
          (case settings db of
             None \<Rightarrow> (Inl (DOMException ''NotFoundError''), s1)
           | Some st \<Rightarrow> (Inr (store_get key st), emit (Transaction [''settings''] False) s1)))"

definition storeSettingKey :: "string \<Rightarrow> setting \<Rightarrow> manager \<Rightarrow> (error + unit) \<times> manager" where
  "storeSettingKey key v s =
     (case getDatabase s of
        (Inl e, s1) \<Rightarrow> (Inl e, s1)
      | (Inr db, s1) \<Rightarrow>
          (case settings db of
             None \<Rightarrow> (Inl (DOMException ''NotFoundError''), s1)
           | Some st \<Rightarrow>
               (let s2 = emit (Transaction [''settings''] True) s1 in
                case store_put_key v key st of
                  Inl e \<Rightarrow> (Inl e, s2)
                | Inr st' \<Rightarrow> (Inr (), s2\<lparr> indexedDB := Some (db\<lparr> settings := Some st' \<rparr>) \<rparr>))))"

text \<open>
  \<^verbatim>\<open>for (const x of xs) { objectStore.put(x.encode({ version: Version })) }\<close>: a put
  that raises ends the loop and rejects the promise; the puts before it stay in the
  transaction.
\<close>

fun put_each ::
  "(string \<Rightarrow> 'v \<Rightarrow> string option) \<Rightarrow> 'v list \<Rightarrow> 'v object_store
     \<Rightarrow> (error + unit) \<times> 'v object_store" where
  "put_each key_of [] st = (Inr (), st)"
| "put_each key_of (v # vs) st =
     (case store_put key_of v st of
        Inl e \<Rightarrow> (Inl e, st)
      | Inr st' \<Rightarrow> put_each key_of vs st')"

definition storeOrders :: "order list \<Rightarrow> manager \<Rightarrow> (error + unit) \<times> manager" where
  "storeOrders os s =
     (case getDatabase s of
        (Inl e, s1) \<Rightarrow> (Inl e, s1)
      | (Inr db, s1) \<Rightarrow>
          (case orders db of
             None \<Rightarrow> (Inl (DOMException ''NotFoundError''), s1)
           | Some st \<Rightarrow>
               (let s2 = emit (Transaction [''orders''] True) s1 in
                case put_each order_key os st of
                  (r, st') \<Rightarrow> (r, s2\<lparr> indexedDB := Some (db\<lparr> orders := Some st' \<rparr>) \<rparr>))))"

definition getTicketPatchesFromDatabase :: "manager \<Rightarrow> (error + ticket_patch list) \<times> manager" where
  "getTicketPatchesFromDatabase s =
     (case getDatabase s of
        (Inl e, s1) \<Rightarrow> (Inl e, s1)
      | (Inr db, s1) \<Rightarrow>
          (case ticketPatches db of
             None \<Rightarrow> (Inl (DOMException ''NotFoundError''), s1)
           | Some st \<Rightarrow> (Inr (store_getAll st), emit (Transaction [''ticketPatches''] False) s1)))"

text \<open>
  The loop of \<^verbatim>\<open>storeTickets\<close>: put the ticket, and with \<^verbatim>\<open>clearPatches\<close> delete the
  patch queued for its secret.
\<close>

fun storeTickets_loop ::
  "bool \<Rightarrow> ticket list \<Rightarrow> ticket object_store \<Rightarrow> ticket_patch object_store
     \<Rightarrow> (error + unit) \<times> ticket object_store \<times> ticket_patch object_store" where
  "storeTickets_loop clearPatches [] ts ps = (Inr (), ts, ps)"
| "storeTickets_loop clearPatches (t # rest) ts ps =
     (case store_put ticket_key t ts of
        Inl e \<Rightarrow> (Inl e, ts, ps)
      | Inr ts' \<Rightarrow>
          storeTickets_loop clearPatches rest ts'
            (if clearPatches then store_delete (secret t) ps else ps))"

definition storeTickets :: "ticket list \<Rightarrow> bool \<Rightarrow> manager \<Rightarrow> (error + unit) \<times> manager" where
  "storeTickets new_tickets clearPatches s =
     (case getDatabase s of
        (Inl e, s1) \<Rightarrow> (Inl e, s1)
      | (Inr db, s1) \<Rightarrow>
          (case (tickets db, ticketPatches db) of
             (Some ts, Some ps) \<Rightarrow>
               (let s2 = emit (Transaction [''tickets'', ''ticketPatches''] True) s1 in
                case storeTickets_loop clearPatches new_tickets ts ps of
                  (r, ts', ps') \<Rightarrow>
                    (r, s2\<lparr> indexedDB := Some (db\<lparr> tickets := Some ts', ticketPatches := Some ps' \<rparr>) \<rparr>))
           | _ \<Rightarrow> (Inl (DOMException ''NotFoundError''), s1)))"

definition storeTicketPatches :: "ticket_patch list \<Rightarrow> manager \<Rightarrow> (error + unit) \<times> manager" where
  "storeTicketPatches patches s =
     (case getDatabase s of
        (Inl e, s1) \<Rightarrow> (Inl e, s1)
      | (Inr db, s1) \<Rightarrow>
          (case ticketPatches db of
             None \<Rightarrow> (Inl (DOMException ''NotFoundError''), s1)
           | Some st \<Rightarrow>
               (let s2 = emit (Transaction [''ticketPatches''] True) s1 in
                case put_each patch_key patches st of
                  (r, st') \<Rightarrow> (r, s2\<lparr> indexedDB := Some (db\<lparr> ticketPatches := Some st' \<rparr>) \<rparr>))))"

text \<open>
  \<^verbatim>\<open>getTicketFromDatabase(secret, withPatches = true)\<close>. \<open>patch\<close> is \<^verbatim>\<open>ticket.patch(patch)\<close>
  of the encoding library; \<open>None\<close> is \<^verbatim>\<open>undefined\<close>.
\<close>

definition getTicketFromDatabase ::
  "(ticket \<Rightarrow> ticket_patch \<Rightarrow> ticket) \<Rightarrow> string \<Rightarrow> bool \<Rightarrow> manager
     \<Rightarrow> (error + ticket option) \<times> manager" where
  "getTicketFromDatabase patch key withPatches s =
     (case getDatabase s of
        (Inl e, s1) \<Rightarrow> (Inl e, s1)
      | (Inr db, s1) \<Rightarrow>
          (case (tickets db, ticketPatches db) of
             (Some ts, Some ps) \<Rightarrow>
               (let s2 = emit (Transaction [''tickets'', ''ticketPatches''] False) s1 in
                case store_get key ts of
                  None \<Rightarrow> (Inr None, s2)
                | Some t \<Rightarrow>
                    if withPatches then
                      (case store_get key ps of
                         None \<Rightarrow> (Inr (Some t), s2)
                       | Some p \<Rightarrow> (Inr (Some (patch t p)), s2))
                    else (Inr (Some t), s2))
           | _ \<Rightarrow> (Inl (DOMException ''NotFoundError''), s1)))"

text \<open>
  The rest of a call that was started and not awaited, for the calls the page loops
  start: all of \<^verbatim>\<open>storeOrders\<close> and of \<^verbatim>\<open>storeTickets\<close>, whose first statement is
  \<^verbatim>\<open>await this.getDatabase()\<close>, and the call of \<^verbatim>\<open>storeSettingKey\<close> that
  \<^verbatim>\<open>setlastFetchedOrder\<close> and \<^verbatim>\<open>setLastFetchedTicket\<close> await. Running it drops its
  outcome (\<^verbatim>\<open>.catch(console.error)\<close>).
\<close>

datatype task =
    StoreOrders "order list"
  | StoreTickets "ticket list" bool
  | StoreSettingKey string setting

fun run_task :: "task \<Rightarrow> manager \<Rightarrow> manager" where
  "run_task (StoreOrders os) s = snd (storeOrders os s)"
| "run_task (StoreTickets ts clearPatches) s = snd (storeTickets ts clearPatches s)"
| "run_task (StoreSettingKey key v) s = snd (storeSettingKey key v s)"

definition run_tasks :: "task list \<Rightarrow> manager \<Rightarrow> manager" where
  "run_tasks started s = fold run_task started s"

text \<open>
  \<^verbatim>\<open>setlastFetchedOrder\<close> and \<^verbatim>\<open>setLastFetchedTicket\<close>, which are only ever started and
  never awaited: the field is assigned at the call, and the result is the state
  together with the call of \<^verbatim>\<open>storeSettingKey\<close> that is then awaited.
\<close>

definition setlastFetchedOrder :: "order \<Rightarrow> manager \<Rightarrow> manager \<times> task" where
  "setlastFetchedOrder v s =
     (let c = \<lparr> lastOrder_updatedAt = order_updatedAt v, lastOrder_number = order_number v \<rparr>
      in (s\<lparr> lastFetchedOrder := Object c \<rparr>, StoreSettingKey ''lastFetchedOrder'' (OrderCursor c)))"

definition setLastFetchedTicket :: "ticket \<Rightarrow> manager \<Rightarrow> manager \<times> task" where
  "setLastFetchedTicket v s =
     (let c = \<lparr> lastTicket_updatedAt = ticket_updatedAt v, lastTicket_id = ticket_id v \<rparr>
      in (s\<lparr> lastFetchedTicket := Object c \<rparr>, StoreSettingKey ''lastFetchedTicket'' (TicketCursor c)))"

subsection \<open>The patch queue\<close>

text \<open>
  \<^verbatim>\<open>patchTickets\<close>: one request, whose outcome is \<open>response\<close>; the tickets it returns are
  stored, and a failure of that is logged and ignored.
\<close>

definition patchTickets ::
  "error + ticket list \<Rightarrow> ticket_patch list \<Rightarrow> manager \<Rightarrow> (error + ticket list) \<times> manager" where
  "patchTickets response patches s =
     (let s1 = emit (PatchTickets patches) s in
      case response of
        Inl e \<Rightarrow> (Inl e, s1)
      | Inr data \<Rightarrow> (Inr data, snd (storeTickets data True s1)))"

text \<open>\<open>response\<close> is the outcome of the request, should \<^verbatim>\<open>trySavePatches\<close> send one.\<close>

definition trySavePatches :: "error + ticket list \<Rightarrow> manager \<Rightarrow> (error + unit) \<times> manager" where
  "trySavePatches response s =
     (if savingTicketPatches s then (Inr (), s)
      else
        (case getTicketPatchesFromDatabase (s\<lparr> savingTicketPatches := True \<rparr>) of
           (Inl e, s1) \<Rightarrow> (Inl e, s1)
         | (Inr patches, s1) \<Rightarrow>
             if patches \<noteq> [] then
               (case patchTickets response patches s1 of
                  (Inl e, s2) \<Rightarrow>
                    if isNetworkError e then (Inr (), s2\<lparr> savingTicketPatches := False \<rparr>)
                    else (Inl e, s2\<lparr> savingTicketPatches := False \<rparr>)
                | (Inr data, s2) \<Rightarrow> (Inr (), s2\<lparr> savingTicketPatches := False \<rparr>))
             else (Inr (), s1\<lparr> savingTicketPatches := False \<rparr>)))"

text \<open>
  \<^verbatim>\<open>addTicketPatch\<close> awaits \<^verbatim>\<open>storeTicketPatches\<close> and, as its last statement, starts
  \<^verbatim>\<open>trySavePatches\<close> without awaiting it.
\<close>

definition addTicketPatch ::
  "error + ticket list \<Rightarrow> ticket_patch \<Rightarrow> manager \<Rightarrow> (error + unit) \<times> manager" where
  "addTicketPatch response patch s =
     (case storeTicketPatches [patch] s of
        (Inl e, s1) \<Rightarrow> (Inl e, s1)
      | (Inr u, s1) \<Rightarrow> (Inr (), snd (trySavePatches response s1)))"

subsection \<open>The flush, await by await\<close>

text \<open>
  \<^verbatim>\<open>trySavePatches\<close> cut at its two awaits. An invocation is at its call, awaiting
  \<^verbatim>\<open>getTicketPatchesFromDatabase\<close>, awaiting \<^verbatim>\<open>patchTickets\<close> (its request is sent), or
  has returned. All tasks share one thread, so what a task does between two awaits
  happens at once, and so does, in this model, the operation it awaits. A schedule of
  several invocations on one manager is a list of turns: the invocation that runs, and
  the answer the server gives if that turn ends a request.
\<close>

datatype flush_pc =
    Invoked
  | AwaitingPatches
  | AwaitingResponse "ticket_patch list"
  | Returned "error + unit"

definition flush_step :: "error + ticket list \<Rightarrow> flush_pc \<Rightarrow> manager \<Rightarrow> flush_pc \<times> manager" where
  "flush_step response pc s =
     (case pc of
        Invoked \<Rightarrow>
          if savingTicketPatches s then (Returned (Inr ()), s)
          else (AwaitingPatches, s\<lparr> savingTicketPatches := True \<rparr>)
      | AwaitingPatches \<Rightarrow>
          (case getTicketPatchesFromDatabase s of
             (Inl e, s1) \<Rightarrow> (Returned (Inl e), s1)
           | (Inr patches, s1) \<Rightarrow>
               if patches \<noteq> [] then (AwaitingResponse patches, emit (PatchTickets patches) s1)
               else (Returned (Inr ()), s1\<lparr> savingTicketPatches := False \<rparr>))
      | AwaitingResponse patches \<Rightarrow>
          (case response of
             Inl e \<Rightarrow>
               if isNetworkError e then (Returned (Inr ()), s\<lparr> savingTicketPatches := False \<rparr>)
               else (Returned (Inl e), s\<lparr> savingTicketPatches := False \<rparr>)
           | Inr data \<Rightarrow>
               (Returned (Inr ()), (snd (storeTickets data True s))\<lparr> savingTicketPatches := False \<rparr>))
      | Returned r \<Rightarrow> (Returned r, s))"

fun in_flush :: "flush_pc \<Rightarrow> bool" where
  "in_flush AwaitingPatches = True"
| "in_flush (AwaitingResponse patches) = True"
| "in_flush _ = False"

definition schedule_step ::
  "nat \<times> (error + ticket list) \<Rightarrow> flush_pc list \<times> manager \<Rightarrow> flush_pc list \<times> manager" where
  "schedule_step turn c =
     (case (turn, c) of
        ((i, response), (pcs, s)) \<Rightarrow>
          if i < length pcs then
            (case flush_step response (pcs ! i) s of (pc', s') \<Rightarrow> (pcs[i := pc'], s'))
          else (pcs, s))"

text \<open>
  The invocations of a list that are between their guard and their return, and the
  state of affairs the guard keeps: at most one of them, and the flag set while there
  is one.
\<close>

definition flushing :: "flush_pc list \<Rightarrow> nat" where
  "flushing pcs = length (filter in_flush pcs)"

definition exclusive :: "flush_pc list \<times> manager \<Rightarrow> bool" where
  "exclusive c \<longleftrightarrow>
     flushing (fst c) \<le> 1 \<and> (0 < flushing (fst c) \<longrightarrow> savingTicketPatches (snd c))"

subsection \<open>The page loops\<close>

text \<open>
  The server of one refresh is the list of its answers, one per request and in order;
  when the list is used up the next request is never answered and the refresh does not
  finish, which is the result \<open>None\<close>.
\<close>

type_synonym orders_server = "(error + (order, orders_query) paginated_response) list"
type_synonym tickets_server = "(error + (ticket, tickets_query) paginated_response) list"

text \<open>
  The body of \<^verbatim>\<open>if (response.results.length > 0)\<close> in \<^verbatim>\<open>fetchNewOrders\<close>:
  \<^verbatim>\<open>storeOrders\<close> is started, \<^verbatim>\<open>setlastFetchedOrder\<close> is started, which assigns the
  cursor, and the page is published; the result is the state and what has been started.
\<close>

definition orders_page :: "order list \<Rightarrow> manager \<Rightarrow> manager \<times> task list" where
  "orders_page rs s =
     (case setlastFetchedOrder (last rs) s of
        (s1, store_cursor) \<Rightarrow> (emit (OrdersFetched rs) s1, [StoreOrders rs, store_cursor]))"

text \<open>
  \<^verbatim>\<open>while (query) { ... }\<close>. \<open>started\<close> is what the page before has started: it runs
  when the loop awaits \<^verbatim>\<open>fetchOrders\<close>, after the request has been handed over and
  before its answer. The loop returns what its last page has started.
\<close>

fun orders_loop ::
  "bool \<Rightarrow> orders_server \<Rightarrow> orders_query option \<Rightarrow> task list \<Rightarrow> manager
     \<Rightarrow> ((error + unit) \<times> manager \<times> task list) option" where
  "orders_loop retry server None started s = Some (Inr (), s, started)"
| "orders_loop retry [] (Some query) started s = None"
| "orders_loop retry (answer # server) (Some query) started s =
     (let s1 = run_tasks started (emit (GetOrders query retry) s) in
      case answer of
        Inl e \<Rightarrow> Some (Inl e, s1, [])
      | Inr response \<Rightarrow>
          if results response \<noteq> [] then
            (case orders_page (results response) s1 of
               (s2, started') \<Rightarrow> orders_loop retry server (next_query response) started' s2)
          else orders_loop retry server (next_query response) [] s1)"

text \<open>
  The cursor a refresh starts from:
  \<^verbatim>\<open>this.lastFetchedOrder = await this.readSettingKey("lastFetchedOrder") ?? null\<close>, and
  \<^verbatim>\<open>null\<close> when that raises. Only \<^verbatim>\<open>setlastFetchedOrder\<close> writes this key; any other
  value under it is read as \<^verbatim>\<open>null\<close>. The first query is
  \<^verbatim>\<open>WebshopOrdersQuery.create({})\<close> on a reset and else carries the cursor, when there
  is one, as \<^verbatim>\<open>updatedSince\<close> and \<^verbatim>\<open>afterNumber\<close>.
\<close>

definition loadLastFetchedOrder :: "manager \<Rightarrow> manager" where
  "loadLastFetchedOrder s =
     (case readSettingKey ''lastFetchedOrder'' s of
        (Inl e, s1) \<Rightarrow> s1\<lparr> lastFetchedOrder := Null \<rparr>
      | (Inr (Some (OrderCursor c)), s1) \<Rightarrow> s1\<lparr> lastFetchedOrder := Object c \<rparr>
      | (Inr _, s1) \<Rightarrow> s1\<lparr> lastFetchedOrder := Null \<rparr>)"

definition orders_first_query :: "bool \<Rightarrow> manager \<Rightarrow> orders_query" where
  "orders_first_query reset s =
     (if reset then \<lparr> orders_updatedSince = None, afterNumber = None \<rparr>
      else (case lastFetchedOrder s of
              Object c \<Rightarrow> \<lparr> orders_updatedSince = Some (lastOrder_updatedAt c),
                            afterNumber = lastOrder_number c \<rparr>
            | _ \<Rightarrow> \<lparr> orders_updatedSince = None, afterNumber = None \<rparr>))"

text \<open>
  \<^verbatim>\<open>fetchNewOrders\<close>. What the last page has started runs after the \<^verbatim>\<open>finally\<close> block.
\<close>

definition fetchNewOrders ::
  "bool \<Rightarrow> bool \<Rightarrow> orders_server \<Rightarrow> manager \<Rightarrow> ((error + unit) \<times> manager) option" where
  "fetchNewOrders retry reset server s =
     (if isLoadingOrders s then Some (Inr (), s)
      else
        (let s1 = s\<lparr> isLoadingOrders := True \<rparr>;
             s2 = (if \<not> reset \<and> lastFetchedOrder s1 = Undefined then loadLastFetchedOrder s1
                   else s1)
         in case orders_loop retry server (Some (orders_first_query reset s2)) [] s2 of
              None \<Rightarrow> None
            | Some (r, s3, started) \<Rightarrow>
                Some (r, run_tasks started (s3\<lparr> isLoadingOrders := False \<rparr>))))"

text \<open>
  The body of \<^verbatim>\<open>if (response.results.length > 0)\<close> in \<^verbatim>\<open>fetchNewTickets\<close>, and its
  loop; \<^verbatim>\<open>clearPatches\<close> has its default \<^verbatim>\<open>true\<close>.
\<close>

definition tickets_page :: "ticket list \<Rightarrow> manager \<Rightarrow> manager \<times> task list" where
  "tickets_page rs s =
     (case setLastFetchedTicket (last rs) s of
        (s1, store_cursor) \<Rightarrow> (s1, [StoreTickets rs True, store_cursor]))"

fun tickets_loop ::
  "bool \<Rightarrow> tickets_server \<Rightarrow> tickets_query option \<Rightarrow> task list \<Rightarrow> manager
     \<Rightarrow> ((error + unit) \<times> manager \<times> task list) option" where
  "tickets_loop retry server None started s = Some (Inr (), s, started)"
| "tickets_loop retry [] (Some query) started s = None"
| "tickets_loop retry (answer # server) (Some query) started s =
     (let s1 = run_tasks started (emit (GetTickets query retry) s) in
      case answer of
        Inl e \<Rightarrow> Some (Inl e, s1, [])
      | Inr response \<Rightarrow>
          if results response \<noteq> [] then
            (case tickets_page (results response) s1 of
               (s2, started') \<Rightarrow> tickets_loop retry server (next_query response) started' s2)
          else tickets_loop retry server (next_query response) [] s1)"

definition loadLastFetchedTicket :: "manager \<Rightarrow> manager" where
  "loadLastFetchedTicket s =
     (case readSettingKey ''lastFetchedTicket'' s of
        (Inl e, s1) \<Rightarrow> s1\<lparr> lastFetchedTicket := Null \<rparr>
      | (Inr (Some (TicketCursor c)), s1) \<Rightarrow> s1\<lparr> lastFetchedTicket := Object c \<rparr>
      | (Inr _, s1) \<Rightarrow> s1\<lparr> lastFetchedTicket := Null \<rparr>)"

definition tickets_first_query :: "bool \<Rightarrow> manager \<Rightarrow> tickets_query" where
  "tickets_first_query reset s =
     (if reset then \<lparr> tickets_updatedSince = None, lastId = None \<rparr>
      else (case lastFetchedTicket s of
              Object c \<Rightarrow> \<lparr> tickets_updatedSince = Some (lastTicket_updatedAt c),
                            lastId = lastTicket_id c \<rparr>
            | _ \<Rightarrow> \<lparr> tickets_updatedSince = None, lastId = None \<rparr>))"

text \<open>
  \<^verbatim>\<open>fetchNewTickets\<close>. The cursor is loaded whether or not \<^verbatim>\<open>reset\<close> is set, and the
  \<^verbatim>\<open>finally\<close> block reads \<^verbatim>\<open>this.isLoadingOrders = false\<close>; what the last page has
  started runs after it.
\<close>

definition fetchNewTickets ::
  "bool \<Rightarrow> bool \<Rightarrow> tickets_server \<Rightarrow> manager \<Rightarrow> ((error + unit) \<times> manager) option" where
  "fetchNewTickets retry reset server s =
     (if isLoadingTickets s then Some (Inr (), s)
      else
        (let s1 = s\<lparr> isLoadingTickets := True \<rparr>;
             s2 = (if lastFetchedTicket s1 = Undefined then loadLastFetchedTicket s1 else s1)
         in case tickets_loop retry server (Some (tickets_first_query reset s2)) [] s2 of
              None \<Rightarrow> None
            | Some (r, s3, started) \<Rightarrow>
                Some (r, run_tasks started (s3\<lparr> isLoadingOrders := False \<rparr>))))"

text \<open>
  A manager as its constructor leaves it, over a given database of the browser; it is
  also the manager a restart gives, since the fields start over and the database stays.
  A manager is \<open>ready\<close> when its database is in the schema.
\<close>

definition new_manager :: "idb option \<Rightarrow> manager" where
  "new_manager disk =
     \<lparr> indexedDB = disk, database = False, lastFetchedOrder = Undefined,
       lastFetchedTicket = Undefined, isLoadingOrders = False, isLoadingTickets = False,
       savingTicketPatches = False, effects = [] \<rparr>"

definition ready :: "manager \<Rightarrow> bool" where
  "ready s \<longleftrightarrow> (case indexedDB s of None \<Rightarrow> False | Some db \<Rightarrow> schema db)"

section \<open>Reading the state\<close>

text \<open>
  What the properties below read off a manager: the records of the \<^verbatim>\<open>ticketPatches\<close>
  store (the patch queue) and the patch queued for a secret, the ticket stored for a
  secret, a value of the \<^verbatim>\<open>settings\<close> store, and the records of the \<^verbatim>\<open>orders\<close> store.
\<close>

definition queued_patches :: "manager \<Rightarrow> (string \<times> ticket_patch) list" where
  "queued_patches s =
     (case indexedDB s of
        None \<Rightarrow> []
      | Some db \<Rightarrow> (case ticketPatches db of None \<Rightarrow> [] | Some st \<Rightarrow> records st))"

definition queued_patch :: "string \<Rightarrow> manager \<Rightarrow> ticket_patch option" where
  "queued_patch k s = map_of (queued_patches s) k"

definition stored_ticket :: "string \<Rightarrow> manager \<Rightarrow> ticket option" where
  "stored_ticket k s =
     (case indexedDB s of
        None \<Rightarrow> None
      | Some db \<Rightarrow> (case tickets db of None \<Rightarrow> None | Some st \<Rightarrow> store_get k st))"

text \<open>
  The queue holds at most one patch per key, and the key of a patch is its secret.
\<close>

definition one_per_secret :: "(string \<times> ticket_patch) list \<Rightarrow> bool" where
  "one_per_secret rs \<longleftrightarrow>
     distinct (map fst rs) \<and> (\<forall>r \<in> set rs. patch_secret (snd r) = Some (fst r))"

definition persisted_setting :: "string \<Rightarrow> manager \<Rightarrow> setting option" where
  "persisted_setting k s =
     (case indexedDB s of
        None \<Rightarrow> None
      | Some db \<Rightarrow> (case settings db of None \<Rightarrow> None | Some st \<Rightarrow> store_get k st))"


text \<open>
  The pages a refresh commits, read off the answers of its server: the non-empty pages
  among the answers the loop gets, which are those up to the first error and up to
  the first answer without a next query.
\<close>

fun committed_pages :: "(error + ('a, 'q) paginated_response) list \<Rightarrow> 'a list list" where
  "committed_pages [] = []"
| "committed_pages (Inl e # server) = []"
| "committed_pages (Inr response # server) =
     (if results response \<noteq> [] then [results response] else [])
     @ (if next_query response = None then [] else committed_pages server)"

text \<open>
  The cursor of the tickets is \<open>c\<close>: in memory, and in the \<^verbatim>\<open>settings\<close> store unless the
  write of a page with this cursor has been started and has yet to run.
\<close>

definition ticket_cursor_kept :: "ticket_cursor \<Rightarrow> task list \<Rightarrow> manager \<Rightarrow> bool" where
  "ticket_cursor_kept c started s \<longleftrightarrow>
     ready s \<and> lastFetchedTicket s = Object c
     \<and> (if started = [] then persisted_setting ''lastFetchedTicket'' s = Some (TicketCursor c)
         else \<exists>rs. started = [StoreTickets rs True,
                               StoreSettingKey ''lastFetchedTicket'' (TicketCursor c)])"

section \<open>Examples\<close>

text \<open>
  Values for running the manager: the database as the first open creates it, an order,
  two tickets, two patches for the first ticket, a database of an older version with
  contents, and a database at the current version that holds both tickets and a patch
  for the first one.
\<close>

definition empty_database :: idb where
  "empty_database =
     \<lparr> idb_version = Version,
       orders = Some \<lparr> keyPath = Some ''id'', records = [] \<rparr>,
       tickets = Some \<lparr> keyPath = Some ''secret'', records = [] \<rparr>,
       ticketPatches = Some \<lparr> keyPath = Some ''secret'', records = [] \<rparr>,
       settings = Some \<lparr> keyPath = None, records = [] \<rparr> \<rparr>"

definition order_1 :: order where
  "order_1 = \<lparr> order_id = ''1'', order_number = Some 1, order_updatedAt = 1000, order_data = ''paid'' \<rparr>"

definition ticket_A :: ticket where
  "ticket_A = \<lparr> ticket_id = Some ''id-A'', secret = ''secret-A'', ticket_updatedAt = 1000,
                ticket_data = ''checkedIn=false'' \<rparr>"

definition ticket_C :: ticket where
  "ticket_C = \<lparr> ticket_id = Some ''id-C'', secret = ''secret-C'', ticket_updatedAt = 1001,
                ticket_data = ''checkedIn=false'' \<rparr>"

definition patch_A :: ticket_patch where
  "patch_A = \<lparr> patch_secret = Some ''secret-A'', patch_data = ''checkedIn=true'' \<rparr>"

definition patch_A' :: ticket_patch where
  "patch_A' = \<lparr> patch_secret = Some ''secret-A'', patch_data = ''checkedIn=false'' \<rparr>"

definition old_database :: idb where
  "old_database =
     \<lparr> idb_version = 124,
       orders = Some \<lparr> keyPath = Some ''id'', records = [(''1'', order_1)] \<rparr>,
       tickets = Some \<lparr> keyPath = Some ''secret'', records = [(''secret-A'', ticket_A)] \<rparr>,
       ticketPatches = Some \<lparr> keyPath = Some ''secret'', records = [(''secret-A'', patch_A)] \<rparr>,
       settings = Some \<lparr> keyPath = None, records = [] \<rparr> \<rparr>"

definition example_database :: idb where
  "example_database =
     empty_database
       \<lparr> tickets := Some \<lparr> keyPath = Some ''secret'',
                            records = [(''secret-A'', ticket_A), (''secret-C'', ticket_C)] \<rparr>,
         ticketPatches := Some \<lparr> keyPath = Some ''secret'', records = [(''secret-A'', patch_A)] \<rparr> \<rparr>"

text \<open>A way to apply a patch, for running \<^verbatim>\<open>getTicketFromDatabase\<close>.\<close>

definition set_data :: "ticket \<Rightarrow> ticket_patch \<Rightarrow> ticket" where
  "set_data t p = t\<lparr> ticket_data := patch_data p \<rparr>"

text \<open>
  Managers: one with a flush in progress, one that enqueued a patch while offline, and
  the outcome of the first refresh of the tickets of a new manager (the server answers
  one page with the first ticket).
\<close>

definition busy_manager :: manager where
  "busy_manager = (new_manager (Some example_database))\<lparr> savingTicketPatches := True \<rparr>"

definition offline_manager :: manager where
  "offline_manager = snd (addTicketPatch (Inl NetworkError) patch_A (new_manager (Some empty_database)))"

definition first_refresh :: "((error + unit) \<times> manager) option" where
  "first_refresh =
     fetchNewTickets False False [Inr \<lparr> results = [ticket_A], next_query = None \<rparr>]
       (new_manager (Some empty_database))"

definition after_first_refresh :: manager where
  "after_first_refresh = (case first_refresh of Some (r, s) \<Rightarrow> s | None \<Rightarrow> new_manager None)"

text \<open>
  The refresh of a manager that is started again over the database the first refresh
  left, the server having nothing new; and a refresh of a new manager in two requests,
  the server answering the first with two tickets and a next query without \<^verbatim>\<open>lastId\<close>.
\<close>

definition restarted_refresh :: "((error + unit) \<times> manager) option" where
  "restarted_refresh =
     fetchNewTickets False False [Inr \<lparr> results = [], next_query = None \<rparr>]
       (new_manager (indexedDB after_first_refresh))"

definition paged_refresh :: "((error + unit) \<times> manager) option" where
  "paged_refresh =
     fetchNewTickets False False
       [Inr \<lparr> results = [ticket_C, ticket_A],
              next_query = Some \<lparr> tickets_updatedSince = Some 1000, lastId = None \<rparr> \<rparr>,
        Inr \<lparr> results = [], next_query = None \<rparr>]
       (new_manager (Some empty_database))"

text \<open>
  A refresh of the orders whose second request fails, and two flushes started together
  on a manager with one queued patch, taking turns.
\<close>

definition interrupted_refresh :: "((error + unit) \<times> manager) option" where
  "interrupted_refresh =
     fetchNewOrders False False
       [Inr \<lparr> results = [order_1], next_query = Some \<lparr> orders_updatedSince = Some 1000, afterNumber = Some 1 \<rparr> \<rparr>,
        Inl NetworkError]
       (new_manager (Some empty_database))"

definition two_flushes :: "flush_pc list \<times> manager" where
  "two_flushes =
     fold schedule_step
       [(0, Inr [ticket_A]), (1, Inr [ticket_A]), (0, Inr [ticket_A]), (1, Inr [ticket_A]),
        (0, Inr [ticket_A])]
       (replicate 2 Invoked, new_manager (Some example_database))"

section \<open>Sodium: the round trip\<close>

text \<open>
  The decoder on the well-formed sequences of one to four bytes.
\<close>

lemma decode_1: "b < 0x80 \<Longrightarrow> utf8_code_points (b # bs) = b # utf8_code_points bs"
  by simp

lemma decode_2:
  "0xC2 \<le> b \<Longrightarrow> b \<le> 0xDF \<Longrightarrow> continuation c1 \<Longrightarrow>
   utf8_code_points (b # c1 # bs) = ((b - 0xC0) * 0x40 + (c1 - 0x80)) # utf8_code_points bs"
  by simp

lemma decode_3:
  "0xE0 \<le> b \<Longrightarrow> b \<le> 0xEF \<Longrightarrow> second_byte b c1 \<Longrightarrow> continuation c2 \<Longrightarrow>
   utf8_code_points (b # c1 # c2 # bs) =
     ((b - 0xE0) * 0x1000 + (c1 - 0x80) * 0x40 + (c2 - 0x80)) # utf8_code_points bs"
  by simp

lemma decode_4:
  "0xF0 \<le> b \<Longrightarrow> b \<le> 0xF4 \<Longrightarrow> second_byte b c1 \<Longrightarrow> continuation c2 \<Longrightarrow>
   continuation c3 \<Longrightarrow>
   utf8_code_points (b # c1 # c2 # c3 # bs) =
     ((b - 0xF0) * 0x40000 + (c1 - 0x80) * 0x1000 + (c2 - 0x80) * 0x40 + (c3 - 0x80))
     # utf8_code_points bs"
  by simp

declare utf8_code_points.simps(2) [simp del]

lemma continuation_mod: "continuation (0x80 + n mod 0x40)"
  unfolding continuation_def by simp


lemma digits:
  fixes cp :: nat
  obtains d0 d1 d2 d3 where
    "cp = d3 * 0x40000 + d2 * 0x1000 + d1 * 0x40 + d0"
    "d0 < 0x40" "d1 < 0x40" "d2 < 0x40"
    "cp mod 0x40 = d0" "cp div 0x40 mod 0x40 = d1" "cp div 0x1000 mod 0x40 = d2"
    "cp div 0x40 = d3 * 0x1000 + d2 * 0x40 + d1" "cp div 0x1000 = d3 * 0x40 + d2"
    "cp div 0x40000 = d3"
proof -
  define d0 where "d0 = cp mod 0x40"
  define d1 where "d1 = cp div 0x40 mod 0x40"
  define d2 where "d2 = cp div 0x1000 mod 0x40"
  define d3 where "d3 = cp div 0x40000"
  have a: "cp div 0x1000 = cp div 0x40 div 0x40" by (simp add: div_mult2_eq)
  have b: "cp div 0x40000 = cp div 0x1000 div 0x40" by (simp add: div_mult2_eq)
  have e1: "cp = cp div 0x40 * 0x40 + d0" unfolding d0_def by simp
  have e2: "cp div 0x40 = cp div 0x1000 * 0x40 + d1" unfolding d1_def a by simp
  have e3: "cp div 0x1000 = d3 * 0x40 + d2" unfolding d2_def d3_def b by simp
  have e4: "cp div 0x40 = d3 * 0x1000 + d2 * 0x40 + d1" using e2 e3 by linarith
  have e5: "cp = d3 * 0x40000 + d2 * 0x1000 + d1 * 0x40 + d0"
    using e1 e4 by linarith
  have lt: "d0 < 0x40" "d1 < 0x40" "d2 < 0x40" by (simp_all add: d0_def d1_def d2_def)
  show ?thesis
    by (rule that [of d3 d2 d1 d0])
      (fact e5 lt e4 e3 d0_def [symmetric] d1_def [symmetric] d2_def [symmetric]
         d3_def [symmetric])+
qed

lemma utf8_bytes_decode:
  assumes "scalar cp"
  shows "utf8_code_points (utf8_bytes cp @ bs) = cp # utf8_code_points bs"
proof -
  obtain d0 d1 d2 d3 where
    cp: "cp = d3 * 0x40000 + d2 * 0x1000 + d1 * 0x40 + d0"
    and lt: "d0 < 0x40" "d1 < 0x40" "d2 < 0x40"
    and md: "cp mod 0x40 = d0" "cp div 0x40 mod 0x40 = d1" "cp div 0x1000 mod 0x40 = d2"
    and q1: "cp div 0x40 = d3 * 0x1000 + d2 * 0x40 + d1"
    and q2: "cp div 0x1000 = d3 * 0x40 + d2"
    and q3: "cp div 0x40000 = d3"
    by (rule digits)
  consider "cp < 0x80" | "0x80 \<le> cp" "cp < 0x800" | "0x800 \<le> cp" "cp < 0x10000"
    | "0x10000 \<le> cp" by linarith
  then show ?thesis
  proof cases
    case 1
    then show ?thesis by (simp add: utf8_bytes_def decode_1)
  next
    case 2
    have z: "d3 = 0" "d2 = 0" using 2 cp by simp_all
    have enc: "utf8_bytes cp = [0xC0 + d1, 0x80 + d0]"
      using 2 z md(1) q1 by (simp add: utf8_bytes_def)
    have lead: "0xC2 \<le> 0xC0 + d1" "0xC0 + d1 \<le> 0xDF"
      using 2 cp lt z by simp_all
    have c: "continuation (0x80 + d0)" using lt by (simp add: continuation_def)
    have val: "(0xC0 + d1 - 0xC0) * 0x40 + (0x80 + d0 - 0x80) = cp"
      using cp z by simp
    show ?thesis
      by (simp only: enc append.simps decode_2 [OF lead c] val)
  next
    case 3
    have z: "d3 = 0" using 3 cp by simp
    have enc: "utf8_bytes cp = [0xE0 + d2, 0x80 + d1, 0x80 + d0]"
      using 3 z md(1,2) q2 unfolding utf8_bytes_def by simp
    have lead: "0xE0 \<le> 0xE0 + d2" "0xE0 + d2 \<le> 0xEF"
      using 3 cp lt z by simp_all
    have sec: "second_byte (0xE0 + d2) (0x80 + d1)"
      using 3 assms cp lt z unfolding second_byte_def scalar_def by auto
    have c: "continuation (0x80 + d0)" using lt by (simp add: continuation_def)
    have val: "(0xE0 + d2 - 0xE0) * 0x1000 + (0x80 + d1 - 0x80) * 0x40 + (0x80 + d0 - 0x80) = cp"
      using cp z by simp
    show ?thesis
      by (simp only: enc append.simps decode_3 [OF lead sec c] val)
  next
    case 4
    have enc: "utf8_bytes cp = [0xF0 + d3, 0x80 + d2, 0x80 + d1, 0x80 + d0]"
      using 4 md q3 unfolding utf8_bytes_def by simp
    have d3: "1 \<le> d3 + d2" "d3 \<le> 4" "d3 = 4 \<longrightarrow> d2 < 0x10" "d3 = 0 \<longrightarrow> 0x10 \<le> d2"
      using 4 assms cp lt unfolding scalar_def by auto
    have lead: "0xF0 \<le> 0xF0 + d3" "0xF0 + d3 \<le> 0xF4"
      using d3 by simp_all
    have sec: "second_byte (0xF0 + d3) (0x80 + d2)"
      using d3 lt unfolding second_byte_def by auto
    have c: "continuation (0x80 + d0)" "continuation (0x80 + d1)"
      using lt by (simp_all add: continuation_def)
    have val: "(0xF0 + d3 - 0xF0) * 0x40000 + (0x80 + d2 - 0x80) * 0x1000 + (0x80 + d1 - 0x80) * 0x40
                 + (0x80 + d0 - 0x80) = cp"
      using cp by simp
    show ?thesis
      by (simp only: enc append.simps decode_4 [OF lead sec c(2) c(1)] val)
  qed
qed


lemma utf8_code_points_bytes:
  "\<forall>cp \<in> set cps. scalar cp \<Longrightarrow> utf8_code_points (concat (map utf8_bytes cps)) = cps"
  by (induction cps) (simp_all add: utf8_bytes_decode)

lemma surrogate_pair_scalar:
  assumes "is_high u" "is_low v"
  shows "scalar (0x10000 + (u - 0xD800) * 0x400 + (v - 0xDC00))"
  using assms unfolding scalar_def is_high_def is_low_def by linarith

lemma unit_scalar:
  assumes "u < 0x10000"
  shows "scalar (if is_high u \<or> is_low u then 0xFFFD else u)"
  using assms unfolding scalar_def is_high_def is_low_def by auto

lemma code_points_scalar:
  "\<forall>u \<in> set us. u < 0x10000 \<Longrightarrow> \<forall>cp \<in> set (code_points us). scalar cp"
proof (induction us rule: code_points.induct)
  case 1
  then show ?case by simp
next
  case (2 u)
  then show ?case using unit_scalar [of u] by simp
next
  case (3 u v us)
  show ?case
  proof (cases "is_high u \<and> is_low v")
    case True
    with 3 surrogate_pair_scalar [of u v] show ?thesis by simp
  next
    case False
    with 3 unit_scalar [of u] show ?thesis by auto
  qed
qed

lemma utf8_bytes_range: "scalar cp \<Longrightarrow> \<forall>b \<in> set (utf8_bytes cp). b < 256"
  unfolding utf8_bytes_def scalar_def
  by (auto simp: less_Suc_eq_le intro: order_le_less_trans)


lemma code_units_code_points:
  "well_formed us \<Longrightarrow> \<forall>u \<in> set us. u < 0x10000 \<Longrightarrow>
   concat (map code_units (code_points us)) = us"
proof (induction us rule: code_points.induct)
  case 1
  then show ?case by simp
next
  case (2 u)
  then show ?case by (simp add: code_units_def)
next
  case (3 u v us)
  show ?case
  proof (cases "is_high u")
    case True
    with "3.prems" have low: "is_low v" and wf: "well_formed us" by simp_all
    from True low have hl: "u - 0xD800 < 0x400" "v - 0xDC00 < 0x400" "0xD800 \<le> u" "0xDC00 \<le> v"
      unfolding is_high_def is_low_def by auto
    define h l where "h = u - 0xD800" and "l = v - 0xDC00"
    have uv: "u = 0xD800 + h" "v = 0xDC00 + l" and lt: "h < 0x400" "l < 0x400"
      using hl by (simp_all add: h_def l_def)
    have pair: "code_units (0x10000 + (u - 0xD800) * 0x400 + (v - 0xDC00)) = [u, v]"
      unfolding uv using lt by (simp add: code_units_def)
    from "3.IH"(1) [OF _ wf] True low "3.prems"(2) pair show ?thesis by simp
  next
    case False
    with "3.prems" have nl: "\<not> is_low u" and wf: "well_formed (v # us)" by simp_all
    from "3.IH"(2) [OF _ wf] False nl "3.prems"(2) show ?thesis
      by (simp add: code_units_def)
  qed
qed

lemma of_char_char_of_bytes:
  "\<forall>b \<in> set bs. b < 256 \<Longrightarrow> map of_char (map char_of bs) = (bs :: nat list)"
  by (induction bs) (simp_all add: of_char_of)

lemma unat_units: "\<forall>u \<in> set (map unat (m :: 16 word list)). u < 0x10000"
proof -
  have "unat u < 0x10000" for u :: "16 word"
    using unsigned_less [of u, where 'a = nat] by simp
  then show ?thesis by simp
qed

lemma utf8_decode_encode: "utf8_decode (utf8_encode m) = toWellFormed m"
proof -
  let ?cps = "code_points (map unat m)"
  have sc: "\<forall>cp \<in> set ?cps. scalar cp"
    by (rule code_points_scalar [OF unat_units])
  then have "\<forall>b \<in> set (concat (map utf8_bytes ?cps)). b < 256"
    using utf8_bytes_range by auto
  then have "map of_char (utf8_encode m) = concat (map utf8_bytes ?cps)"
    unfolding utf8_encode_def by (rule of_char_char_of_bytes)
  then show ?thesis
    by (simp add: utf8_decode_def toWellFormed_def utf8_code_points_bytes [OF sc])
qed

lemma toWellFormed_id: "isWellFormed m \<Longrightarrow> toWellFormed m = m"
  unfolding isWellFormed_def toWellFormed_def
  by (simp add: code_units_code_points [OF _ unat_units] map_idI)


text \<open>
  The toy library keeps the contract of the sealed box at every message and key pair.
\<close>

lemma toy_sodium_contract:
  "crypto_box_seal toy_sodium ephemeral b pk = Inr (pk @ b)"
  "crypto_box_seal_open toy_sodium (pk @ b) pk (rev pk) = Inr b"
  "from_base64 toy_sodium (to_base64 toy_sodium c) = c"
  by (simp_all add: toy_sodium_def)

text \<open>
  Claim C4, as the code has it. Unsealing what \<^verbatim>\<open>sealMessage\<close> produced for a message
  and a public key, with that public key and its private key, gives back the message
  with U+FFFD in the place of every surrogate that is not part of a pair; so it gives
  back the message exactly when the message is well formed. The wrappers are proved for
  every implementation of libsodium and of the base64 codec that keeps the contract
  the claim relies on, stated at the message and key pair at hand: the sealed box opens
  to the sealed bytes under the key pair, and base64 decoding inverts base64 encoding
  on the ciphertext.
\<close>

theorem unsealMessage_sealMessage:
  assumes box: "crypto_box_seal lib ephemeral (utf8_encode m) (from_base64 lib pub) = Inr c"
    and opens: "crypto_box_seal_open lib c (from_base64 lib pub) (from_base64 lib priv)
                  = Inr (utf8_encode m)"
    and base64: "from_base64 lib (to_base64 lib c) = c"
  shows "\<exists>sealed. sealMessage lib ephemeral m pub = Inr sealed
           \<and> unsealMessage lib sealed pub priv = Inr (toWellFormed m)
           \<and> (isWellFormed m \<longrightarrow> unsealMessage lib sealed pub priv = Inr m)"
proof -
  have s: "sealMessage lib ephemeral m pub = Inr (to_base64 lib c)"
    by (simp add: sealMessage_def box)
  have u: "unsealMessage lib (to_base64 lib c) pub priv = Inr (toWellFormed m)"
    by (simp add: unsealMessage_def base64 opens utf8_decode_encode)
  from s u show ?thesis by (auto simp: toWellFormed_id)
qed

theorem unsealMessage_sealMessage_witness:
  "isWellFormed [0x68, 0x65, 0x6C, 0x6C, 0x6F]
   \<and> (\<exists>sealed. sealMessage toy_sodium ''e'' [0x68, 0x65, 0x6C, 0x6C, 0x6F] ''pk'' = Inr sealed
         \<and> unsealMessage toy_sodium sealed ''pk'' ''kp'' = Inr [0x68, 0x65, 0x6C, 0x6C, 0x6F])"
proof -
  have wf: "isWellFormed [0x68, 0x65, 0x6C, 0x6C, 0x6F]"
    by (simp add: isWellFormed_def is_high_def is_low_def)
  have "\<exists>sealed. sealMessage toy_sodium ''e'' [0x68, 0x65, 0x6C, 0x6C, 0x6F] ''pk'' = Inr sealed
         \<and> unsealMessage toy_sodium sealed ''pk'' ''kp'' = Inr (toWellFormed [0x68, 0x65, 0x6C, 0x6C, 0x6F])
         \<and> (isWellFormed [0x68, 0x65, 0x6C, 0x6C, 0x6F] \<longrightarrow>
              unsealMessage toy_sodium sealed ''pk'' ''kp'' = Inr [0x68, 0x65, 0x6C, 0x6C, 0x6F])"
    by (rule unsealMessage_sealMessage [of toy_sodium "''e''" _ "''pk''"
        "''pk'' @ utf8_encode [0x68, 0x65, 0x6C, 0x6C, 0x6F]" "''kp''"])
      (simp_all add: toy_sodium_def)
  with wf show ?thesis by blast
qed

text \<open>
  Claim C4 as stated fails for a message with a surrogate outside a pair. The message
  of the three code units \<open>a\<close>, \<open>D800\<close>, \<open>b\<close> is encoded with the bytes \<open>EF BF BD\<close>
  of U+FFFD in the place of the surrogate, before anything is sealed, and these bytes
  decode to \<open>a\<close>, \<open>FFFD\<close>, \<open>b\<close>. So sealing it, here to the public key of the toy
  library, and unsealing the result does not return the message.
\<close>

theorem lone_surrogate_is_replaced:
  "utf8_encode [0x61, 0xD800, 0x62] = [CHR ''a'', CHR 0xEF, CHR 0xBF, CHR 0xBD, CHR ''b'']
   \<and> utf8_decode [CHR ''a'', CHR 0xEF, CHR 0xBF, CHR 0xBD, CHR ''b''] = [0x61, 0xFFFD, 0x62]
   \<and> sealMessage toy_sodium ''e'' [0x61, 0xD800, 0x62] ''pk'' =
     Inr [CHR ''p'', CHR ''k'', CHR ''a'', CHR 0xEF, CHR 0xBF, CHR 0xBD, CHR ''b'']
   \<and> unsealMessage toy_sodium
         [CHR ''p'', CHR ''k'', CHR ''a'', CHR 0xEF, CHR 0xBF, CHR 0xBD, CHR ''b''] ''pk'' ''kp'' =
       Inr [0x61, 0xFFFD, 0x62]
   \<and> unsealMessage toy_sodium
         [CHR ''p'', CHR ''k'', CHR ''a'', CHR 0xEF, CHR 0xBF, CHR 0xBD, CHR ''b''] ''pk'' ''kp'' \<noteq>
       Inr [0x61, 0xD800, 0x62]"
proof -
  have enc: "utf8_encode [0x61, 0xD800, 0x62] = [CHR ''a'', CHR 0xEF, CHR 0xBF, CHR 0xBD, CHR ''b'']"
    by (simp add: utf8_encode_def is_high_def is_low_def utf8_bytes_def char_of_def bit_0 bit_Suc)
  have dec: "utf8_decode [CHR ''a'', CHR 0xEF, CHR 0xBF, CHR 0xBD, CHR ''b''] = [0x61, 0xFFFD, 0x62]"
    by (simp add: utf8_decode_def decode_1 decode_3 second_byte_def continuation_def
        code_units_def)
  show ?thesis
    by (simp add: sealMessage_def unsealMessage_def toy_sodium_def enc dec)
qed

section \<open>MemberManager: one corrupted envelope in a batch\<close>

lemma filter_all_but_one:
  assumes i: "i < length xs"
    and bad: "\<not> P (xs ! i)"
    and good: "\<forall>j<length xs. j \<noteq> i \<longrightarrow> P (xs ! j)"
  shows "length (filter P xs) = length xs - 1"
    and "length (filter (\<lambda>x. \<not> P x) xs) = 1"
proof -
  have split: "xs = take i xs @ xs ! i # drop (Suc i) xs"
    using i by (rule id_take_nth_drop)
  have front: "\<forall>x \<in> set (take i xs). P x"
  proof
    fix x assume "x \<in> set (take i xs)"
    then obtain j where j: "j < length (take i xs)" and x: "x = take i xs ! j"
      by (auto simp: in_set_conv_nth)
    with i good show "P x" by simp
  qed
  have rear: "\<forall>x \<in> set (drop (Suc i) xs). P x"
  proof
    fix x assume "x \<in> set (drop (Suc i) xs)"
    then obtain j where j: "j < length (drop (Suc i) xs)" and x: "x = drop (Suc i) xs ! j"
      by (auto simp: in_set_conv_nth)
    with i good show "P x" by simp
  qed
  have fP: "filter P xs = take i xs @ drop (Suc i) xs"
    using front rear bad by (subst split) simp
  have fN: "filter (\<lambda>x. \<not> P x) xs = [xs ! i]"
    using front rear bad by (subst split) simp
  from fP i show "length (filter P xs) = length xs - 1" by simp
  from fN show "length (filter (\<lambda>x. \<not> P x) xs) = 1" by simp
qed

lemma decryptDetails_wellformed:
  "wellformed session keyPair c \<Longrightarrow> \<exists>d. decryptDetails session keyPair c = Some d"
  by (auto simp: wellformed_def decryptDetails_def split: option.splits sum.splits)

lemma decryptDetails_corrupted:
  "corrupted session keyPair c \<Longrightarrow> decryptDetails session keyPair c = None"
  by (auto simp: corrupted_def decryptDetails_def split: option.splits sum.splits)


lemma one_absent_map:
  assumes size: "length data = Suc N"
    and i: "i < Suc N"
    and bad: "details (f (data ! i)) = None"
    and good: "\<forall>j<Suc N. j \<noteq> i \<longrightarrow> details (f (data ! j)) \<noteq> None"
    and ids: "\<And>m. member_id (f m) = em_id m"
  shows "one_absent N i (map em_id data) (map f data)"
proof -
  let ?ms = "map f data"
  let ?P = "\<lambda>m. details m \<noteq> None"
  have len: "length ?ms = Suc N" using size by simp
  have i': "i < length ?ms" using i len by simp
  have bad': "\<not> ?P (?ms ! i)" using bad i size by simp
  have good': "\<forall>j<length ?ms. j \<noteq> i \<longrightarrow> ?P (?ms ! j)" using good size by simp
  have present: "length (filter ?P ?ms) = N"
    using filter_all_but_one(1) [OF i' bad' good'] len by simp
  have absent: "length (filter (\<lambda>m. \<not> ?P m) ?ms) = 1"
    by (rule filter_all_but_one(2) [OF i' bad' good'])
  have where_absent: "\<forall>j<Suc N. (details (?ms ! j) = None) = (j = i)"
    using bad good size by auto
  have names: "map member_id ?ms = map em_id data"
    by (simp add: ids)
  from len names where_absent present absent show ?thesis
    unfolding one_absent_def by simp
qed


text \<open>
  Claim C3. With the organization's key pair resolved, a batch of \<open>N + 1\<close> encrypted
  members in which the envelope at index \<open>i\<close> is corrupted (it is present and
  unsealing, parsing or decoding raises) and every other envelope is well-formed is
  materialized, by \<^verbatim>\<open>decryptMembers\<close> and by \<^verbatim>\<open>decryptMembersWithoutRegistrations\<close>
  alike, into \<open>N + 1\<close> members: one per input, in input order, \<open>N\<close> with the payload
  present and one, the member at \<open>i\<close>, with the payload absent. The batch is not aborted.
\<close>

theorem decryptMembers_one_corrupted:
  assumes keys: "organizationKeyPair session = Inr keyPair"
    and size: "length data = Suc N"
    and i: "i < Suc N"
    and bad: "corrupted session keyPair (encryptedForOrganization (data ! i))"
    and good: "\<forall>j<Suc N. j \<noteq> i \<longrightarrow>
                 wellformed session keyPair (encryptedForOrganization (data ! j))"
  shows "(\<exists>ms. decryptMembers session resolve groups data = Inr ms
             \<and> one_absent N i (map em_id data) ms)
       \<and> (\<exists>ms. decryptMembersWithoutRegistrations session data = Inr ms
             \<and> one_absent N i (map em_id data) ms)"
proof
  let ?det = "\<lambda>m. decryptDetails session keyPair (encryptedForOrganization m)"
  have b: "?det (data ! i) = None"
    using bad by (rule decryptDetails_corrupted)
  have g: "\<forall>j<Suc N. j \<noteq> i \<longrightarrow> ?det (data ! j) \<noteq> None"
    using good decryptDetails_wellformed by fastforce
  show "\<exists>ms. decryptMembers session resolve groups data = Inr ms
             \<and> one_absent N i (map em_id data) ms"
    using one_absent_map [where f = "\<lambda>m. fillGroups resolve groups
                           \<lparr> member_id = em_id m, details = ?det m,
                             member_publicKey = em_publicKey m,
                             registrations = em_registrations m, attached = None \<rparr>", OF size i] b g
    by (simp add: decryptMembers_def keys fillGroups_def)
  show "\<exists>ms. decryptMembersWithoutRegistrations session data = Inr ms
             \<and> one_absent N i (map em_id data) ms"
    using one_absent_map [where f = "\<lambda>m. \<lparr> member_id = em_id m, details = ?det m,
                             member_publicKey = em_publicKey m \<rparr>", OF size i] b g
    by (simp add: decryptMembersWithoutRegistrations_def keys)
qed

lemma toy_keys: "organizationKeyPair toy_session = Inr \<lparr> publicKey = ''pk'', privateKey = ''kp'' \<rparr>"
  by (simp add: organizationKeyPair_def toy_session_def)

theorem decryptMembers_one_corrupted_witness:
  "(\<exists>ms. decryptMembers toy_session (\<lambda>g r. g) () toy_batch = Inr ms
       \<and> one_absent 2 1 [''1'', ''2'', ''3''] ms)
   \<and> (\<exists>ms. decryptMembersWithoutRegistrations toy_session toy_batch = Inr ms
       \<and> one_absent 2 1 [''1'', ''2'', ''3''] ms)"
proof -
  let ?kp = "\<lparr> publicKey = ''pk'', privateKey = ''kp'' \<rparr>"
  have size: "length toy_batch = Suc 2" by (simp add: toy_batch_def)
  have bad: "corrupted toy_session ?kp (encryptedForOrganization (toy_batch ! 1))"
    by (simp add: toy_batch_def toy_member_def corrupted_def unsealMessage_def
        toy_session_def toy_sodium_def)
  have good: "\<forall>j<Suc 2. j \<noteq> 1 \<longrightarrow>
                wellformed toy_session ?kp (encryptedForOrganization (toy_batch ! j))"
    by (auto simp: toy_batch_def toy_member_def wellformed_def unsealMessage_def
        toy_session_def toy_sodium_def less_Suc_eq numeral_3_eq_3
        utf8_decode_def decode_1 code_units_def)
  show ?thesis
    using decryptMembers_one_corrupted [OF toy_keys size _ bad good, of "\<lambda>g r. g" "()"]
    by (simp add: toy_batch_def toy_member_def)
qed

section \<open>The local database: facts\<close>

lemma getDatabase_ready:
  assumes "indexedDB s = Some db" and "schema db"
  shows "getDatabase s = (Inr db, s\<lparr> database := True \<rparr>)"
proof (cases "database s")
  case True
  then have "s\<lparr> database := True \<rparr> = s" by (cases s) simp
  with True assms show ?thesis by (simp add: getDatabase_def)
next
  case False
  have "s\<lparr> indexedDB := Some db, database := True \<rparr> = s\<lparr> database := True \<rparr>"
    using assms(1) by (cases s) simp
  with False assms show ?thesis
    by (simp add: getDatabase_def indexedDB_open_def schema_def)
qed

lemma map_of_insort_key:
  "k \<notin> fst ` set rs \<Longrightarrow> map_of (insort_key fst (k, v) rs) = (map_of rs)(k \<mapsto> v)"
  by (induction rs) (auto simp: fun_eq_iff)

lemma map_of_filter_key:
  "map_of (filter (\<lambda>r. fst r \<noteq> k) rs) k' = (if k' = k then None else map_of rs k')"
  by (induction rs) auto

lemma map_of_put_record: "map_of (put_record k v rs) = (map_of rs)(k \<mapsto> v)"
proof -
  have "k \<notin> fst ` set (filter (\<lambda>r. fst r \<noteq> k) rs)" by auto
  then have "map_of (put_record k v rs) = (map_of (filter (\<lambda>r. fst r \<noteq> k) rs))(k \<mapsto> v)"
    unfolding put_record_def by (rule map_of_insort_key)
  also have "\<dots> = (map_of rs)(k \<mapsto> v)"
    by (auto simp: map_of_filter_key fun_eq_iff)
  finally show ?thesis .
qed

lemma distinct_put_record:
  "distinct (map fst rs) \<Longrightarrow> distinct (map fst (put_record k v rs))"
  by (auto simp: put_record_def distinct_insort_key distinct_map_filter)

lemma filter_put_record: "filter (\<lambda>r. fst r = k) (put_record k v rs) = [(k, v)]"
proof -
  have "filter (\<lambda>r. fst r = k) (filter (\<lambda>r. fst r \<noteq> k) rs) = []"
    by (induction rs) auto
  moreover have "filter (\<lambda>r. fst r = k) (insort_key fst (k, v) xs) = [(k, v)]"
    if "filter (\<lambda>r. fst r = k) xs = []" for xs
    using that by (induction xs) (auto split: if_splits)
  ultimately show ?thesis by (simp add: put_record_def)
qed

lemma set_put_record:
  "set (put_record k v rs) = insert (k, v) {r \<in> set rs. fst r \<noteq> k}"
  by (auto simp: put_record_def set_insort_key)

lemma storeTickets_loop_secret:
  assumes "keyPath ts = Some ''secret''"
  shows "\<exists>ts'. storeTickets_loop True data ts ps =
           (Inr (), ts', ps\<lparr> records := filter (\<lambda>r. fst r \<notin> secret ` set data) (records ps) \<rparr>)
         \<and> keyPath ts' = Some ''secret''"
  using assms
proof (induction data arbitrary: ts ps)
  case Nil
  then show ?case by simp
next
  case (Cons t data)
  let ?ts1 = "ts\<lparr> records := put_record (secret t) t (records ts) \<rparr>"
  let ?ps1 = "store_delete (secret t) ps"
  have put: "store_put ticket_key t ts = Inr ?ts1"
    using Cons.prems by (simp add: store_put_def ticket_key_def)
  have kp: "keyPath ?ts1 = Some ''secret''" using Cons.prems by simp
  from Cons.IH [OF kp, of ?ps1] obtain ts' where
    run: "storeTickets_loop True data ?ts1 ?ps1 =
           (Inr (), ts', ?ps1\<lparr> records := filter (\<lambda>r. fst r \<notin> secret ` set data) (records ?ps1) \<rparr>)"
    and kp': "keyPath ts' = Some ''secret''"
    by blast
  have ps_eq: "?ps1\<lparr> records := filter (\<lambda>r. fst r \<notin> secret ` set data) (records ?ps1) \<rparr>
        = ps\<lparr> records := filter (\<lambda>r. fst r \<notin> secret ` set (t # data)) (records ps) \<rparr>"
    by (auto simp: store_delete_def intro: filter_cong)
  show ?case
    using put run kp' ps_eq by simp
qed

section \<open>The patch queue: facts\<close>

lemma readyE:
  assumes "ready s"
  obtains db os ts ps ss where "indexedDB s = Some db" "schema db"
    "orders db = Some os" "keyPath os = Some ''id''"
    "tickets db = Some ts" "keyPath ts = Some ''secret''"
    "ticketPatches db = Some ps" "keyPath ps = Some ''secret''"
    "settings db = Some ss" "keyPath ss = None"
  using assms unfolding ready_def schema_def
  by (auto split: option.splits)

lemma getTicketPatchesFromDatabase_ready:
  assumes "indexedDB s = Some db" "schema db" "ticketPatches db = Some ps"
  shows "getTicketPatchesFromDatabase s =
           (Inr (map snd (records ps)),
            s\<lparr> database := True, effects := effects s @ [Transaction [''ticketPatches''] False] \<rparr>)"
  using assms
  by (simp add: getTicketPatchesFromDatabase_def getDatabase_ready [OF assms(1,2)] emit_def
      store_getAll_def)

section \<open>The schema upgrade\<close>

text \<open>
  Claim C7. The upgrade handler of the store: on an old version below 1 (a database
  without object stores) it creates the stores \<^verbatim>\<open>orders\<close> keyed by \<^verbatim>\<open>id\<close>, \<^verbatim>\<open>tickets\<close>
  and \<^verbatim>\<open>ticketPatches\<close> keyed by \<^verbatim>\<open>secret\<close>, and \<^verbatim>\<open>settings\<close> without a key path, all
  empty; on every other old version it empties the four stores and keeps nothing of
  their contents. Opening the database runs the handler when the version on disk is
  behind the requested one (the database then takes that version), leaves the
  database as it is when the versions are equal, and fails when the version on disk is
  ahead.
\<close>

theorem onupgradeneeded_creates_or_clears:
  "(oldVersion < 1 \<and> orders db = None \<and> tickets db = None \<and> ticketPatches db = None
      \<and> settings db = None \<longrightarrow>
      onupgradeneeded oldVersion db =
        Inr (db\<lparr> orders := Some \<lparr> keyPath = Some ''id'', records = [] \<rparr>,
                 tickets := Some \<lparr> keyPath = Some ''secret'', records = [] \<rparr>,
                 ticketPatches := Some \<lparr> keyPath = Some ''secret'', records = [] \<rparr>,
                 settings := Some \<lparr> keyPath = None, records = [] \<rparr> \<rparr>))
   \<and> (1 \<le> oldVersion \<and> orders db = Some os \<and> tickets db = Some ts
      \<and> ticketPatches db = Some ps \<and> settings db = Some ss \<longrightarrow>
      onupgradeneeded oldVersion db =
        Inr (db\<lparr> orders := Some (os\<lparr> records := [] \<rparr>),
                 tickets := Some (ts\<lparr> records := [] \<rparr>),
                 ticketPatches := Some (ps\<lparr> records := [] \<rparr>),
                 settings := Some (ss\<lparr> records := [] \<rparr>) \<rparr>))
   \<and> (idb_version db < version \<longrightarrow>
        indexedDB_open version (Some db) =
          (case onupgradeneeded (idb_version db) db of
             Inl e \<Rightarrow> Inl not_supported
           | Inr db' \<Rightarrow> Inr (db'\<lparr> idb_version := version \<rparr>)))
   \<and> (idb_version db = version \<longrightarrow> indexedDB_open version (Some db) = Inr db)
   \<and> (version < idb_version db \<longrightarrow> indexedDB_open version (Some db) = Inl not_supported)"
proof (intro conjI impI)
  assume "oldVersion < 1 \<and> orders db = None \<and> tickets db = None \<and> ticketPatches db = None
      \<and> settings db = None"
  then show "onupgradeneeded oldVersion db =
        Inr (db\<lparr> orders := Some \<lparr> keyPath = Some ''id'', records = [] \<rparr>,
                 tickets := Some \<lparr> keyPath = Some ''secret'', records = [] \<rparr>,
                 ticketPatches := Some \<lparr> keyPath = Some ''secret'', records = [] \<rparr>,
                 settings := Some \<lparr> keyPath = None, records = [] \<rparr> \<rparr>)"
    by (simp add: onupgradeneeded_def createObjectStore_def)
next
  assume "1 \<le> oldVersion \<and> orders db = Some os \<and> tickets db = Some ts
      \<and> ticketPatches db = Some ps \<and> settings db = Some ss"
  then show "onupgradeneeded oldVersion db =
        Inr (db\<lparr> orders := Some (os\<lparr> records := [] \<rparr>),
                 tickets := Some (ts\<lparr> records := [] \<rparr>),
                 ticketPatches := Some (ps\<lparr> records := [] \<rparr>),
                 settings := Some (ss\<lparr> records := [] \<rparr>) \<rparr>)"
    by (simp add: onupgradeneeded_def clear_store_def)
next
  assume "idb_version db < version"
  then show "indexedDB_open version (Some db) =
          (case onupgradeneeded (idb_version db) db of
             Inl e \<Rightarrow> Inl not_supported
           | Inr db' \<Rightarrow> Inr (db'\<lparr> idb_version := version \<rparr>))"
    by (simp add: indexedDB_open_def)
next
  assume "idb_version db = version"
  then show "indexedDB_open version (Some db) = Inr db"
    by (simp add: indexedDB_open_def)
next
  assume "version < idb_version db"
  then show "indexedDB_open version (Some db) = Inl not_supported"
    by (simp add: indexedDB_open_def)
qed

theorem onupgradeneeded_creates_or_clears_witness:
  "onupgradeneeded 0 no_database = Inr (empty_database\<lparr> idb_version := 0 \<rparr>)
   \<and> indexedDB_open Version (Some no_database) = Inr empty_database
   \<and> onupgradeneeded 124 old_database = Inr (empty_database\<lparr> idb_version := 124 \<rparr>)
   \<and> indexedDB_open Version (Some old_database) = Inr empty_database
   \<and> indexedDB_open Version (Some example_database) = Inr example_database
   \<and> indexedDB_open Version (Some (example_database\<lparr> idb_version := 126 \<rparr>)) = Inl not_supported"
  using onupgradeneeded_creates_or_clears [of 0 no_database _ _ _ _ Version]
    onupgradeneeded_creates_or_clears [of 124 old_database
      "\<lparr> keyPath = Some ''id'', records = [(''1'', order_1)] \<rparr>"
      "\<lparr> keyPath = Some ''secret'', records = [(''secret-A'', ticket_A)] \<rparr>"
      "\<lparr> keyPath = Some ''secret'', records = [(''secret-A'', patch_A)] \<rparr>"
      "\<lparr> keyPath = None, records = [] \<rparr>" Version]
    onupgradeneeded_creates_or_clears [of _ example_database _ _ _ _ Version]
    onupgradeneeded_creates_or_clears [of _ "example_database\<lparr> idb_version := 126 \<rparr>" _ _ _ _ Version]
  by (simp add: no_database_def old_database_def empty_database_def example_database_def Version_def)

section \<open>Reading a ticket\<close>

text \<open>
  Claim C10. On a database in its schema, \<^verbatim>\<open>getTicketFromDatabase(secret)\<close> with
  \<^verbatim>\<open>withPatches\<close> left true resolves, never rejects: to \<^verbatim>\<open>undefined\<close> when no ticket
  is stored for the secret, to the stored ticket when no patch is queued for it, and to
  the stored ticket with the queued patch applied otherwise. The database is not
  changed.
\<close>

theorem getTicketFromDatabase_reconciles:
  assumes rdy: "ready s"
  shows "fst (getTicketFromDatabase patch k True s) =
           Inr (case stored_ticket k s of
                  None \<Rightarrow> None
                | Some t \<Rightarrow> (case queued_patch k s of
                               None \<Rightarrow> Some t
                             | Some p \<Rightarrow> Some (patch t p)))
       \<and> indexedDB (snd (getTicketFromDatabase patch k True s)) = indexedDB s"
proof -
  from rdy obtain db ts ps where db: "indexedDB s = Some db" and sch: "schema db"
    and ts: "tickets db = Some ts" and ps: "ticketPatches db = Some ps"
    by (elim readyE)
  have st: "stored_ticket k s = store_get k ts" by (simp add: stored_ticket_def db ts)
  have qp: "queued_patch k s = store_get k ps"
    by (simp add: queued_patch_def queued_patches_def db ps store_get_def)
  show ?thesis
    by (simp add: getTicketFromDatabase_def getDatabase_ready [OF db sch] ts ps st qp emit_def db
        split: option.splits)
qed

lemma ready_example: "ready (new_manager (Some example_database))"
  by (simp add: ready_def new_manager_def schema_def example_database_def empty_database_def)

theorem getTicketFromDatabase_reconciles_witness:
  "fst (getTicketFromDatabase set_data ''secret-A'' True (new_manager (Some example_database)))
     = Inr (Some (ticket_A\<lparr> ticket_data := ''checkedIn=true'' \<rparr>))
   \<and> fst (getTicketFromDatabase set_data ''secret-C'' True (new_manager (Some example_database)))
     = Inr (Some ticket_C)
   \<and> fst (getTicketFromDatabase set_data ''secret-B'' True (new_manager (Some example_database)))
     = Inr None"
  using getTicketFromDatabase_reconciles [OF ready_example, of set_data "''secret-A''"]
    getTicketFromDatabase_reconciles [OF ready_example, of set_data "''secret-C''"]
    getTicketFromDatabase_reconciles [OF ready_example, of set_data "''secret-B''"]
  by (simp add: stored_ticket_def queued_patch_def queued_patches_def new_manager_def
      example_database_def store_get_def set_data_def patch_A_def)

section \<open>The flush\<close>

lemma getDatabase_guards:
  assumes "getDatabase s = (r, s1)"
  shows "isLoadingTickets s1 = isLoadingTickets s" and "isLoadingOrders s1 = isLoadingOrders s"
    and "savingTicketPatches s1 = savingTicketPatches s"
  using assms
  by (auto simp: getDatabase_def split: if_splits option.splits sum.splits)

lemma getTicketPatchesFromDatabase_guard:
  "getTicketPatchesFromDatabase s = (r, s1) \<Longrightarrow> savingTicketPatches s1 = savingTicketPatches s"
  by (auto simp: getTicketPatchesFromDatabase_def emit_def
      split: prod.splits sum.splits option.splits dest: getDatabase_guards(3))

lemma flush_steps_trySavePatches:
  "(case flush_step response Invoked s of (pc1, s1) \<Rightarrow>
      case flush_step response pc1 s1 of (pc2, s2) \<Rightarrow> flush_step response pc2 s2)
   = (Returned (fst (trySavePatches response s)), snd (trySavePatches response s))"
  by (auto simp: flush_step_def trySavePatches_def patchTickets_def Let_def
      split: prod.splits sum.splits)

lemma filter_update_length:
  "i < length xs \<Longrightarrow>
   length (filter P (xs[i := y])) + (if P (xs ! i) then 1 else 0)
     = length (filter P xs) + (if P y then 1 else 0)"
proof (induction xs arbitrary: i)
  case Nil
  then show ?case by simp
next
  case (Cons x xs)
  show ?case
  proof (cases i)
    case 0
    then show ?thesis by simp
  next
    case (Suc j)
    with Cons.prems have "j < length xs" by simp
    from Cons.IH [OF this] Suc show ?thesis by simp
  qed
qed

lemma flushing_update:
  "i < length pcs \<Longrightarrow>
   flushing (pcs[i := pc]) + (if in_flush (pcs ! i) then 1 else 0)
     = flushing pcs + (if in_flush pc then 1 else 0)"
  unfolding flushing_def by (rule filter_update_length)

lemma flushing_member: "i < length pcs \<Longrightarrow> in_flush (pcs ! i) \<Longrightarrow> 0 < flushing pcs"
  by (auto simp: flushing_def filter_empty_conv)

lemma exclusive_step: "exclusive c \<Longrightarrow> exclusive (schedule_step turn c)"
proof -
  assume inv: "exclusive c"
  obtain i response where turn: "turn = (i, response)" by (cases turn)
  obtain pcs s where c: "c = (pcs, s)" by (cases c)
  show ?thesis
  proof (cases "i < length pcs")
    case False
    with inv show ?thesis by (simp add: schedule_step_def turn c)
  next
    case True
    obtain pc' s' where st: "flush_step response (pcs ! i) s = (pc', s')"
      by (cases "flush_step response (pcs ! i) s")
    have res: "schedule_step turn c = (pcs[i := pc'], s')"
      using True st by (simp add: schedule_step_def turn c)
    note count = flushing_update [OF True, of pc']
    from inv have le: "flushing pcs \<le> 1"
      and sav: "0 < flushing pcs \<Longrightarrow> savingTicketPatches s"
      by (simp_all add: exclusive_def c)
    show ?thesis
    proof (cases "pcs ! i")
      case Invoked
      show ?thesis
      proof (cases "savingTicketPatches s")
        case saving: True
        with st Invoked have "pc' = Returned (Inr ())" "s' = s" by (simp_all add: flush_step_def)
        with count Invoked le saving show ?thesis by (simp add: res exclusive_def)
      next
        case idle: False
        with sav have none: "flushing pcs = 0" by auto
        from st Invoked idle have "pc' = AwaitingPatches" "s' = s\<lparr> savingTicketPatches := True \<rparr>"
          by (simp_all add: flush_step_def)
        with count Invoked none show ?thesis by (simp add: res exclusive_def)
      qed
    next
      case AwaitingPatches
      with flushing_member [OF True] sav have saving: "savingTicketPatches s" by simp
      have keep: "in_flush pc' \<Longrightarrow> savingTicketPatches s'"
        using st AwaitingPatches saving
        by (auto simp: flush_step_def emit_def split: prod.splits sum.splits if_splits
            dest: getTicketPatchesFromDatabase_guard)
      from count AwaitingPatches le have "flushing (pcs[i := pc']) \<le> 1"
        and "0 < flushing (pcs[i := pc']) \<Longrightarrow> in_flush pc'"
        by (auto split: if_splits)
      with keep show ?thesis by (auto simp: res exclusive_def)
    next
      case (AwaitingResponse patches)
      with st have "\<not> in_flush pc'"
        by (auto simp: flush_step_def split: sum.splits if_splits)
      with count AwaitingResponse le have "flushing (pcs[i := pc']) = 0"
        by (simp split: if_splits)
      then show ?thesis by (simp add: res exclusive_def)
    next
      case (Returned r)
      with st have "pc' = Returned r" "s' = s" by (simp_all add: flush_step_def)
      with count Returned le sav show ?thesis by (auto simp: res exclusive_def)
    qed
  qed
qed

lemma exclusive_fold: "exclusive c \<Longrightarrow> exclusive (fold schedule_step schedule c)"
  by (induction schedule arbitrary: c) (simp_all add: exclusive_step)

lemma exclusive_start: "exclusive (replicate n Invoked, s)"
  by (simp add: exclusive_def flushing_def)

text \<open>
  Claim C5. \<^verbatim>\<open>trySavePatches\<close> invoked while \<^verbatim>\<open>savingTicketPatches\<close> is set returns at
  once and changes nothing: the manager is the same afterwards, so it has opened no
  transaction on the patch queue and sent no request, whatever the server would have
  answered. Run await by await, an invocation does what \<^verbatim>\<open>trySavePatches\<close> does; and
  however the turns of any number of invocations on one manager are interleaved, at
  most one of them is between its guard and its return at any time.
\<close>

theorem trySavePatches_reentrant:
  "(savingTicketPatches s \<longrightarrow>
      trySavePatches response s = (Inr (), s)
      \<and> effects (snd (trySavePatches response s)) = effects s
      \<and> queued_patches (snd (trySavePatches response s)) = queued_patches s)
   \<and> (case flush_step response Invoked s of (pc1, s1) \<Rightarrow>
        case flush_step response pc1 s1 of (pc2, s2) \<Rightarrow> flush_step response pc2 s2)
      = (Returned (fst (trySavePatches response s)), snd (trySavePatches response s))
   \<and> flushing (fst (fold schedule_step schedule (replicate n Invoked, s))) \<le> 1"
proof (intro conjI impI)
  assume "savingTicketPatches s"
  then show "trySavePatches response s = (Inr (), s)"
    "effects (snd (trySavePatches response s)) = effects s"
    "queued_patches (snd (trySavePatches response s)) = queued_patches s"
    by (simp_all add: trySavePatches_def)
next
  show "(case flush_step response Invoked s of (pc1, s1) \<Rightarrow>
        case flush_step response pc1 s1 of (pc2, s2) \<Rightarrow> flush_step response pc2 s2)
      = (Returned (fst (trySavePatches response s)), snd (trySavePatches response s))"
    by (rule flush_steps_trySavePatches)
next
  have "exclusive (fold schedule_step schedule (replicate n Invoked, s))"
    using exclusive_start by (rule exclusive_fold)
  then show "flushing (fst (fold schedule_step schedule (replicate n Invoked, s))) \<le> 1"
    by (simp add: exclusive_def)
qed

lemma two_flushes_eq:
  "fst two_flushes = [Returned (Inr ()), Returned (Inr ())]
   \<and> effects (snd two_flushes) =
       [Transaction [''ticketPatches''] False, PatchTickets [patch_A],
        Transaction [''tickets'', ''ticketPatches''] True]"
  by (simp add: two_flushes_def schedule_step_def flush_step_def new_manager_def
      numeral_2_eq_2 getTicketPatchesFromDatabase_def getDatabase_def indexedDB_open_def
      example_database_def empty_database_def store_getAll_def emit_def storeTickets_def
      store_put_def ticket_key_def put_record_def store_delete_def ticket_A_def Let_def)

theorem trySavePatches_reentrant_witness:
  "trySavePatches (Inr [ticket_A]) busy_manager = (Inr (), busy_manager)
   \<and> effects (snd (trySavePatches (Inr [ticket_A]) busy_manager)) = []
   \<and> queued_patches (snd (trySavePatches (Inr [ticket_A]) busy_manager)) = [(''secret-A'', patch_A)]
   \<and> flushing (fst two_flushes) \<le> 1
   \<and> fst two_flushes = [Returned (Inr ()), Returned (Inr ())]
   \<and> effects (snd two_flushes) =
       [Transaction [''ticketPatches''] False, PatchTickets [patch_A],
        Transaction [''tickets'', ''ticketPatches''] True]"
  using trySavePatches_reentrant [of busy_manager "Inr [ticket_A]" "[]" 0]
    trySavePatches_reentrant [of "new_manager (Some example_database)" "Inr [ticket_A]"
      "[(0, Inr [ticket_A]), (1, Inr [ticket_A]), (0, Inr [ticket_A]), (1, Inr [ticket_A]),
        (0, Inr [ticket_A])]" 2]
    two_flushes_eq
  by (simp add: busy_manager_def new_manager_def queued_patches_def example_database_def
      two_flushes_def)

text \<open>
  Claim C6. A flush that starts (the guard is clear) on a database in its schema, and
  whose request fails: when the failure is a network error the flush returns normally,
  and when it is any other error the flush raises that error; either way the patch
  queue (and the whole database) is as it was and the guard is clear again. The effects
  show that the request was sent with every queued patch.
\<close>

theorem trySavePatches_failure:
  assumes rdy: "ready s" and idle: "\<not> savingTicketPatches s"
  shows "(isNetworkError e \<longrightarrow>
            fst (trySavePatches (Inl e) s) = Inr ()
            \<and> queued_patches (snd (trySavePatches (Inl e) s)) = queued_patches s
            \<and> indexedDB (snd (trySavePatches (Inl e) s)) = indexedDB s
            \<and> \<not> savingTicketPatches (snd (trySavePatches (Inl e) s)))
       \<and> (\<not> isNetworkError e \<and> queued_patches s \<noteq> [] \<longrightarrow>
            fst (trySavePatches (Inl e) s) = Inl e
            \<and> queued_patches (snd (trySavePatches (Inl e) s)) = queued_patches s
            \<and> indexedDB (snd (trySavePatches (Inl e) s)) = indexedDB s
            \<and> \<not> savingTicketPatches (snd (trySavePatches (Inl e) s)))
       \<and> (queued_patches s \<noteq> [] \<longrightarrow>
            effects (snd (trySavePatches (Inl e) s)) =
              effects s @ [Transaction [''ticketPatches''] False,
                           PatchTickets (map snd (queued_patches s))])"
proof -
  from rdy obtain db ps where db: "indexedDB s = Some db" and sch: "schema db"
    and ps: "ticketPatches db = Some ps"
    by (elim readyE)
  let ?s0 = "s\<lparr> savingTicketPatches := True \<rparr>"
  have db0: "indexedDB ?s0 = Some db" using db by simp
  note read = getTicketPatchesFromDatabase_ready [OF db0 sch ps]
  have q: "queued_patches s = records ps" by (simp add: queued_patches_def db ps)
  show ?thesis
    using idle
    by (simp add: trySavePatches_def read patchTickets_def emit_def q queued_patches_def db ps)
qed

lemma offline_manager_eq:
  "offline_manager =
     \<lparr> indexedDB = Some (empty_database\<lparr> ticketPatches :=
          Some \<lparr> keyPath = Some ''secret'', records = [(''secret-A'', patch_A)] \<rparr> \<rparr>),
       database = True, lastFetchedOrder = Undefined, lastFetchedTicket = Undefined,
       isLoadingOrders = False, isLoadingTickets = False, savingTicketPatches = False,
       effects = [Transaction [''ticketPatches''] True, Transaction [''ticketPatches''] False,
                  PatchTickets [patch_A]] \<rparr>"
  by (simp add: offline_manager_def addTicketPatch_def storeTicketPatches_def getDatabase_def
      new_manager_def indexedDB_open_def empty_database_def store_put_def patch_key_def
      put_record_def emit_def trySavePatches_def getTicketPatchesFromDatabase_def store_getAll_def
      patchTickets_def patch_A_def)

theorem trySavePatches_failure_witness:
  "queued_patches offline_manager = [(''secret-A'', patch_A)]
   \<and> fst (trySavePatches (Inl NetworkError) offline_manager) = Inr ()
   \<and> queued_patches (snd (trySavePatches (Inl NetworkError) offline_manager)) = [(''secret-A'', patch_A)]
   \<and> \<not> savingTicketPatches (snd (trySavePatches (Inl NetworkError) offline_manager))
   \<and> fst (trySavePatches (Inl (SimpleError ''invalid_field'')) offline_manager)
       = Inl (SimpleError ''invalid_field'')
   \<and> queued_patches (snd (trySavePatches (Inl (SimpleError ''invalid_field'')) offline_manager))
       = [(''secret-A'', patch_A)]
   \<and> \<not> savingTicketPatches (snd (trySavePatches (Inl (SimpleError ''invalid_field'')) offline_manager))"
proof -
  have rdy: "ready offline_manager"
    by (simp add: offline_manager_eq ready_def schema_def empty_database_def)
  have idle: "\<not> savingTicketPatches offline_manager"
    by (simp add: offline_manager_eq)
  have q: "queued_patches offline_manager = [(''secret-A'', patch_A)]"
    by (simp add: offline_manager_eq queued_patches_def)
  show ?thesis
    using trySavePatches_failure [OF rdy idle, of NetworkError]
      trySavePatches_failure [OF rdy idle, of "SimpleError ''invalid_field''"]
    by (simp add: q)
qed

lemma queued_patches_fields [simp]:
  "queued_patches (s\<lparr> savingTicketPatches := b \<rparr>) = queued_patches s"
  "queued_patches (s\<lparr> database := b \<rparr>) = queued_patches s"
  "queued_patches (s\<lparr> effects := es \<rparr>) = queued_patches s"
  "queued_patches (emit e s) = queued_patches s"
  "queued_patches (s\<lparr> isLoadingOrders := b \<rparr>) = queued_patches s"
  "queued_patches (s\<lparr> isLoadingTickets := b \<rparr>) = queued_patches s"
  "queued_patches (s\<lparr> lastFetchedOrder := oc \<rparr>) = queued_patches s"
  "queued_patches (s\<lparr> lastFetchedTicket := tc \<rparr>) = queued_patches s"
  by (simp_all add: queued_patches_def emit_def)

lemma onupgradeneeded_queue:
  "onupgradeneeded v db = Inr db' \<Longrightarrow> \<exists>st. ticketPatches db' = Some st \<and> records st = []"
  by (auto simp: onupgradeneeded_def createObjectStore_def clear_store_def
      split: if_splits sum.splits option.splits)

lemma indexedDB_open_queue:
  assumes "indexedDB_open v (Some db) = Inr db'"
  shows "db' = db \<or> (\<exists>st. ticketPatches db' = Some st \<and> records st = [])"
  using assms onupgradeneeded_queue [of "idb_version db" db]
  by (auto simp: indexedDB_open_def split: if_splits sum.splits)

lemma getDatabase_Inl: "getDatabase s = (Inl e, s1) \<Longrightarrow> s1 = s"
  by (auto simp: getDatabase_def split: if_splits option.splits sum.splits)

lemma getDatabase_Inr: "getDatabase s = (Inr db, s1) \<Longrightarrow> indexedDB s1 = Some db"
  by (auto simp: getDatabase_def split: if_splits option.splits sum.splits)

lemma getDatabase_queue:
  assumes "getDatabase s = (r, s1)"
  shows "queued_patches s1 = queued_patches s \<or> queued_patches s1 = []"
proof (cases "database s")
  case True
  with assms show ?thesis
    by (auto simp: getDatabase_def split: option.splits)
next
  case False
  show ?thesis
  proof (cases "indexedDB s")
    case None
    with False assms show ?thesis
      by (auto simp: getDatabase_def indexedDB_open_def)
  next
    case (Some db)
    show ?thesis
    proof (cases "indexedDB_open Version (Some db)")
      case (Inl e)
      with False Some assms show ?thesis by (auto simp: getDatabase_def)
    next
      case (Inr db')
      with False Some assms have s1: "s1 = s\<lparr> indexedDB := Some db', database := True \<rparr>"
        by (auto simp: getDatabase_def)
      from indexedDB_open_queue [OF Inr] show ?thesis
        using Some by (auto simp: s1 queued_patches_def)
    qed
  qed
qed

lemma filter_or_empty:
  "ys = xs \<or> ys = [] \<Longrightarrow> \<exists>P. ys = filter P xs"
proof (erule disjE)
  assume "ys = xs"
  then show ?thesis by (intro exI [of _ "\<lambda>_. True"]) simp
next
  assume "ys = []"
  then show ?thesis by (intro exI [of _ "\<lambda>_. False"]) simp
qed

lemma storeTickets_loop_queue:
  "storeTickets_loop cp data ts ps = (r, ts', ps') \<Longrightarrow> \<exists>P. records ps' = filter P (records ps)"
proof (induction data arbitrary: ts ps)
  case Nil
  then show ?case by (intro exI [of _ "\<lambda>_. True"]) simp
next
  case (Cons t data)
  show ?case
  proof (cases "store_put ticket_key t ts")
    case (Inl e)
    with Cons.prems show ?thesis by (intro exI [of _ "\<lambda>_. True"]) simp
  next
    case (Inr ts1)
    let ?ps1 = "if cp then store_delete (secret t) ps else ps"
    from Cons.prems Inr have "storeTickets_loop cp data ts1 ?ps1 = (r, ts', ps')" by simp
    from Cons.IH [OF this] obtain P where P: "records ps' = filter P (records ?ps1)" ..
    have "records ?ps1 = filter (\<lambda>r. \<not> cp \<or> fst r \<noteq> secret t) (records ps)"
      by (simp add: store_delete_def)
    with P have "records ps' = filter (\<lambda>r. (\<not> cp \<or> fst r \<noteq> secret t) \<and> P r) (records ps)"
      by simp
    then show ?thesis by blast
  qed
qed

lemma storeTickets_queue:
  "\<exists>P. queued_patches (snd (storeTickets data cp s)) = filter P (queued_patches s)"
proof -
  obtain r s1 where g: "getDatabase s = (r, s1)" by (cases "getDatabase s")
  from getDatabase_queue [OF g] obtain Q where Q: "queued_patches s1 = filter Q (queued_patches s)"
    using filter_or_empty by blast
  show ?thesis
  proof (cases r)
    case (Inl e)
    with g Q show ?thesis by (auto simp: storeTickets_def)
  next
    case (Inr db)
    with g have db: "indexedDB s1 = Some db" by (simp add: getDatabase_Inr)
    show ?thesis
    proof (cases "tickets db")
      case None
      with g Inr Q show ?thesis by (auto simp: storeTickets_def)
    next
      case ts: (Some ts)
      show ?thesis
      proof (cases "ticketPatches db")
        case None
        with g Inr Q ts show ?thesis by (auto simp: storeTickets_def)
      next
        case ps: (Some ps)
        obtain r' ts' ps' where l: "storeTickets_loop cp data ts ps = (r', ts', ps')"
          by (cases "storeTickets_loop cp data ts ps")
        from storeTickets_loop_queue [OF l] obtain P where P: "records ps' = filter P (records ps)" ..
        have "queued_patches s1 = records ps" by (simp add: queued_patches_def db ps)
        with Q P have "records ps' = filter (\<lambda>r. Q r \<and> P r) (queued_patches s)" by simp
        moreover have "queued_patches (snd (storeTickets data cp s)) = records ps'"
          using g Inr ts ps l by (simp add: storeTickets_def queued_patches_def)
        ultimately show ?thesis by metis
      qed
    qed
  qed
qed

lemma one_per_secret_filter: "one_per_secret rs \<Longrightarrow> one_per_secret (filter P rs)"
  by (simp add: one_per_secret_def distinct_map_filter)

lemma one_per_secret_Nil: "one_per_secret []"
  by (simp add: one_per_secret_def)

lemma one_per_secret_put:
  "one_per_secret rs \<Longrightarrow> patch_secret p = Some k \<Longrightarrow> one_per_secret (put_record k p rs)"
  by (auto simp: one_per_secret_def distinct_put_record set_put_record)

lemma getTicketPatchesFromDatabase_queue:
  "\<exists>P. queued_patches (snd (getTicketPatchesFromDatabase s)) = filter P (queued_patches s)"
proof -
  obtain r s1 where g: "getDatabase s = (r, s1)" by (cases "getDatabase s")
  from getDatabase_queue [OF g] obtain Q where "queued_patches s1 = filter Q (queued_patches s)"
    using filter_or_empty by blast
  then show ?thesis
    using g by (auto simp: getTicketPatchesFromDatabase_def split: sum.splits option.splits)
qed

lemma patchTickets_queue:
  "\<exists>P. queued_patches (snd (patchTickets response patches s)) = filter P (queued_patches s)"
proof (cases response)
  case (Inl e)
  then show ?thesis
    by (intro exI [of _ "\<lambda>_. True"]) (simp add: patchTickets_def)
next
  case (Inr data)
  from storeTickets_queue [of data True "emit (PatchTickets patches) s"]
  show ?thesis using Inr by (simp add: patchTickets_def)
qed

lemma trySavePatches_queue:
  "\<exists>P. queued_patches (snd (trySavePatches response s)) = filter P (queued_patches s)"
proof (cases "savingTicketPatches s")
  case True
  then show ?thesis
    by (intro exI [of _ "\<lambda>_. True"]) (simp add: trySavePatches_def)
next
  case False
  let ?s0 = "s\<lparr> savingTicketPatches := True \<rparr>"
  obtain r s1 where g: "getTicketPatchesFromDatabase ?s0 = (r, s1)"
    by (cases "getTicketPatchesFromDatabase ?s0")
  from getTicketPatchesFromDatabase_queue [of ?s0] g
  obtain Q where Q: "queued_patches s1 = filter Q (queued_patches s)" by auto
  show ?thesis
  proof (cases r)
    case (Inl e)
    with False g Q show ?thesis by (auto simp: trySavePatches_def)
  next
    case (Inr patches)
    obtain r2 s2 where p: "patchTickets response patches s1 = (r2, s2)"
      by (cases "patchTickets response patches s1")
    from patchTickets_queue [of response patches s1] p
    obtain P where "queued_patches s2 = filter P (queued_patches s1)" by auto
    with Q have Q2: "queued_patches s2 = filter (\<lambda>r. Q r \<and> P r) (queued_patches s)" by simp
    have "queued_patches (snd (trySavePatches response s)) = queued_patches s1
        \<or> queued_patches (snd (trySavePatches response s)) = queued_patches s2"
      using False g Inr p by (auto simp: trySavePatches_def split: sum.splits)
    with Q Q2 show ?thesis by metis
  qed
qed

lemma put_each_patches:
  "put_each patch_key vs st = (r, st') \<Longrightarrow> one_per_secret (records st)
     \<Longrightarrow> one_per_secret (records st')"
proof (induction vs arbitrary: st)
  case Nil
  then show ?case by simp
next
  case (Cons v vs)
  show ?case
  proof (cases "store_put patch_key v st")
    case (Inl e)
    with Cons.prems show ?thesis by simp
  next
    case (Inr st1)
    then obtain k where k: "patch_secret v = Some k"
      and st1: "st1 = st\<lparr> records := put_record k v (records st) \<rparr>"
      by (auto simp: store_put_def patch_key_def split: option.splits if_splits)
    from Cons.prems(2) k have "one_per_secret (records st1)"
      by (simp add: st1 one_per_secret_put)
    moreover from Cons.prems(1) Inr have "put_each patch_key vs st1 = (r, st')" by simp
    ultimately show ?thesis by (rule Cons.IH [rotated])
  qed
qed

lemma storeTicketPatches_inv:
  assumes "one_per_secret (queued_patches s)"
  shows "one_per_secret (queued_patches (snd (storeTicketPatches patches s)))"
proof -
  obtain r s1 where g: "getDatabase s = (r, s1)" by (cases "getDatabase s")
  from getDatabase_queue [OF g] obtain Q where "queued_patches s1 = filter Q (queued_patches s)"
    using filter_or_empty by blast
  with assms have inv1: "one_per_secret (queued_patches s1)"
    by (simp add: one_per_secret_filter)
  show ?thesis
  proof (cases r)
    case (Inl e)
    with g inv1 show ?thesis by (simp add: storeTicketPatches_def)
  next
    case (Inr db)
    with g have db: "indexedDB s1 = Some db" by (simp add: getDatabase_Inr)
    show ?thesis
    proof (cases "ticketPatches db")
      case None
      with g Inr inv1 show ?thesis by (simp add: storeTicketPatches_def)
    next
      case (Some st)
      obtain r' st' where l: "put_each patch_key patches st = (r', st')"
        by (cases "put_each patch_key patches st")
      have "one_per_secret (records st)" using inv1 by (simp add: queued_patches_def db Some)
      from put_each_patches [OF l this]
      show ?thesis using g Inr Some l by (simp add: storeTicketPatches_def queued_patches_def)
    qed
  qed
qed

lemma addTicketPatch_inv:
  assumes "one_per_secret (queued_patches s)"
  shows "one_per_secret (queued_patches (snd (addTicketPatch response p s)))"
proof -
  obtain r s1 where st: "storeTicketPatches [p] s = (r, s1)" by (cases "storeTicketPatches [p] s")
  from storeTicketPatches_inv [OF assms, of "[p]"] st
  have inv1: "one_per_secret (queued_patches s1)" by simp
  from trySavePatches_queue [of response s1] inv1
  have "one_per_secret (queued_patches (snd (trySavePatches response s1)))"
    by (auto simp: one_per_secret_filter)
  with st inv1 show ?thesis by (cases r) (simp_all add: addTicketPatch_def)
qed

lemma queued_patch_filter:
  "map_of rs k = None \<Longrightarrow> map_of (filter P rs) k = None"
  by (induction rs) (auto split: if_splits)

lemma flushes_keep_empty:
  "queued_patch k s = None \<Longrightarrow>
   queued_patch k (fold (\<lambda>response s. snd (trySavePatches response s)) responses s) = None"
proof (induction responses arbitrary: s)
  case Nil
  then show ?case by simp
next
  case (Cons response responses)
  from trySavePatches_queue [of response s] Cons.prems
  have "queued_patch k (snd (trySavePatches response s)) = None"
    by (auto simp: queued_patch_def queued_patch_filter)
  then show ?case by (simp add: Cons.IH)
qed

lemma storeTicketPatches_ready:
  assumes rdy: "ready s" and k: "patch_secret p = Some k"
  shows "fst (storeTicketPatches [p] s) = Inr ()"
    and "queued_patches (snd (storeTicketPatches [p] s)) = put_record k p (queued_patches s)"
    and "ready (snd (storeTicketPatches [p] s))"
proof -
  from rdy obtain db ps where db: "indexedDB s = Some db" and sch: "schema db"
    and ps: "ticketPatches db = Some ps" and kp: "keyPath ps = Some ''secret''"
    by (elim readyE)
  have put: "store_put patch_key p ps = Inr (ps\<lparr> records := put_record k p (records ps) \<rparr>)"
    by (simp add: store_put_def kp patch_key_def k)
  show "fst (storeTicketPatches [p] s) = Inr ()"
    by (simp add: storeTicketPatches_def getDatabase_ready [OF db sch] ps put)
  show "queued_patches (snd (storeTicketPatches [p] s)) = put_record k p (queued_patches s)"
    by (simp add: storeTicketPatches_def getDatabase_ready [OF db sch] ps put
        queued_patches_def db)
  show "ready (snd (storeTicketPatches [p] s))"
    using sch kp
    by (simp add: storeTicketPatches_def getDatabase_ready [OF db sch] ps put
        ready_def schema_def emit_def)
qed

lemma storeTickets_ready:
  assumes db: "indexedDB s = Some db" and sch: "schema db"
    and ts: "tickets db = Some ts" and ps: "ticketPatches db = Some ps"
    and loop: "storeTickets_loop cp data ts ps = (r, ts', ps')"
  shows "storeTickets data cp s =
      (r, (emit (Transaction [''tickets'', ''ticketPatches''] True) (s\<lparr> database := True \<rparr>))
         \<lparr> indexedDB := Some (db\<lparr> tickets := Some ts', ticketPatches := Some ps' \<rparr>) \<rparr>)"
  by (simp add: storeTickets_def getDatabase_ready [OF db sch] ts ps loop)

lemma trySavePatches_success:
  assumes rdy: "ready s" and idle: "\<not> savingTicketPatches s" and some: "queued_patches s \<noteq> []"
  shows "fst (trySavePatches (Inr data) s) = Inr ()"
    and "queued_patches (snd (trySavePatches (Inr data) s)) =
           filter (\<lambda>r. fst r \<notin> secret ` set data) (queued_patches s)"
    and "\<not> savingTicketPatches (snd (trySavePatches (Inr data) s))"
proof -
  from rdy obtain db ts ps where db: "indexedDB s = Some db" and sch: "schema db"
    and ts: "tickets db = Some ts" and kt: "keyPath ts = Some ''secret''"
    and ps: "ticketPatches db = Some ps"
    by (elim readyE)
  let ?s0 = "s\<lparr> savingTicketPatches := True \<rparr>"
  have db0: "indexedDB ?s0 = Some db" using db by simp
  note read = getTicketPatchesFromDatabase_ready [OF db0 sch ps]
  have q: "queued_patches s = records ps" by (simp add: queued_patches_def db ps)
  from storeTickets_loop_secret [OF kt, of data ps] obtain ts' where
    loop: "storeTickets_loop True data ts ps =
             (Inr (), ts', ps\<lparr> records := filter (\<lambda>r. fst r \<notin> secret ` set data) (records ps) \<rparr>)"
    by blast
  let ?s1 = "emit (PatchTickets (map snd (records ps)))
               (?s0\<lparr> database := True, effects := effects ?s0 @ [Transaction [''ticketPatches''] False] \<rparr>)"
  have db1: "indexedDB ?s1 = Some db" using db by (simp add: emit_def)
  have store: "storeTickets data True ?s1 =
      (Inr (), (emit (Transaction [''tickets'', ''ticketPatches''] True) (?s1\<lparr> database := True \<rparr>))
         \<lparr> indexedDB := Some (db\<lparr> tickets := Some ts',
               ticketPatches := Some (ps\<lparr> records := filter (\<lambda>r. fst r \<notin> secret ` set data) (records ps) \<rparr>) \<rparr>) \<rparr>)"
    by (rule storeTickets_ready [OF db1 sch ts ps loop])
  have run: "trySavePatches (Inr data) s =
      (Inr (), (snd (storeTickets data True ?s1))\<lparr> savingTicketPatches := False \<rparr>)"
    using idle some by (simp add: trySavePatches_def read patchTickets_def q)
  show "fst (trySavePatches (Inr data) s) = Inr ()" by (simp add: run)
  show "queued_patches (snd (trySavePatches (Inr data) s)) =
           filter (\<lambda>r. fst r \<notin> secret ` set data) (queued_patches s)"
    unfolding run store by (simp add: queued_patches_def db ps)
  show "\<not> savingTicketPatches (snd (trySavePatches (Inr data) s))" by (simp add: run)
qed

text \<open>
  Claim C9. The patch queue holds at most one patch per secret: that is kept by
  \<^verbatim>\<open>storeTicketPatches\<close> and \<^verbatim>\<open>storeTickets\<close>, which write the \<^verbatim>\<open>ticketPatches\<close>
  store, and so by enqueueing (\<^verbatim>\<open>addTicketPatch\<close>, which stores the patch and tries a
  flush) and by a flush, whatever the server answers. Two patches enqueued for one
  secret leave exactly one record for it, the second patch. A flush that the server
  answers with tickets deletes from the queue exactly the records of the secrets of
  these tickets, so none of them has a queued patch afterwards; and a secret without a
  queued patch has none after any number of further flushes, whatever their answers.
\<close>

theorem ticketPatches_one_per_key:
  "(one_per_secret (queued_patches s) \<longrightarrow>
      one_per_secret (queued_patches (snd (storeTicketPatches patches s)))
      \<and> one_per_secret (queued_patches (snd (storeTickets data clearPatches s)))
      \<and> one_per_secret (queued_patches (snd (addTicketPatch response p s)))
      \<and> one_per_secret (queued_patches (snd (trySavePatches response s))))
   \<and> (ready s \<and> patch_secret p1 = Some k \<and> patch_secret p2 = Some k \<longrightarrow>
        filter (\<lambda>r. fst r = k)
          (queued_patches (snd (storeTicketPatches [p2] (snd (storeTicketPatches [p1] s)))))
        = [(k, p2)])
   \<and> (ready s \<and> \<not> savingTicketPatches s \<and> queued_patches s \<noteq> [] \<longrightarrow>
        fst (trySavePatches (Inr data) s) = Inr ()
        \<and> queued_patches (snd (trySavePatches (Inr data) s)) =
            filter (\<lambda>r. fst r \<notin> secret ` set data) (queued_patches s)
        \<and> (\<forall>t \<in> set data. queued_patch (secret t) (snd (trySavePatches (Inr data) s)) = None))
   \<and> (queued_patch k s = None \<longrightarrow>
        queued_patch k (fold (\<lambda>response s. snd (trySavePatches response s)) responses s) = None)"
proof (intro conjI impI)
  assume inv: "one_per_secret (queued_patches s)"
  show "one_per_secret (queued_patches (snd (storeTicketPatches patches s)))"
    using inv by (rule storeTicketPatches_inv)
  from storeTickets_queue [of data clearPatches s] inv
  show "one_per_secret (queued_patches (snd (storeTickets data clearPatches s)))"
    by (auto simp: one_per_secret_filter)
  show "one_per_secret (queued_patches (snd (addTicketPatch response p s)))"
    using inv by (rule addTicketPatch_inv)
  from trySavePatches_queue [of response s] inv
  show "one_per_secret (queued_patches (snd (trySavePatches response s)))"
    by (auto simp: one_per_secret_filter)
next
  assume a: "ready s \<and> patch_secret p1 = Some k \<and> patch_secret p2 = Some k"
  then have r1: "ready (snd (storeTicketPatches [p1] s))"
    by (simp add: storeTicketPatches_ready(3))
  show "filter (\<lambda>r. fst r = k)
          (queued_patches (snd (storeTicketPatches [p2] (snd (storeTicketPatches [p1] s)))))
        = [(k, p2)]"
    using a by (simp add: storeTicketPatches_ready(2) [OF r1] filter_put_record)
next
  assume a: "ready s \<and> \<not> savingTicketPatches s \<and> queued_patches s \<noteq> []"
  then show "fst (trySavePatches (Inr data) s) = Inr ()"
    by (simp add: trySavePatches_success(1))
  from a show q: "queued_patches (snd (trySavePatches (Inr data) s)) =
            filter (\<lambda>r. fst r \<notin> secret ` set data) (queued_patches s)"
    by (simp add: trySavePatches_success(2))
  show "\<forall>t \<in> set data. queued_patch (secret t) (snd (trySavePatches (Inr data) s)) = None"
    unfolding queued_patch_def q by (auto simp: map_of_eq_None_iff)
next
  assume "queued_patch k s = None"
  then show "queued_patch k (fold (\<lambda>response s. snd (trySavePatches response s)) responses s) = None"
    by (rule flushes_keep_empty)
qed

lemma ready_empty: "ready (new_manager (Some empty_database))"
  by (simp add: ready_def new_manager_def schema_def empty_database_def)

theorem ticketPatches_one_per_key_witness:
  "one_per_secret (queued_patches (snd (addTicketPatch (Inl NetworkError) patch_A
      (new_manager (Some empty_database)))))
   \<and> one_per_secret (queued_patches (snd (trySavePatches (Inr [ticket_A])
      (new_manager (Some example_database)))))
   \<and> filter (\<lambda>r. fst r = ''secret-A'')
        (queued_patches (snd (storeTicketPatches [patch_A']
           (snd (storeTicketPatches [patch_A] (new_manager (Some empty_database)))))))
      = [(''secret-A'', patch_A')]
   \<and> fst (trySavePatches (Inr [ticket_A]) (new_manager (Some example_database))) = Inr ()
   \<and> queued_patches (snd (trySavePatches (Inr [ticket_A]) (new_manager (Some example_database)))) = []
   \<and> queued_patch ''secret-A'' (snd (trySavePatches (Inr [ticket_A])
        (new_manager (Some example_database)))) = None
   \<and> queued_patch ''secret-A''
        (fold (\<lambda>response s. snd (trySavePatches response s)) [Inr [], Inl NetworkError, Inr [ticket_A]]
           (new_manager (Some empty_database))) = None"
proof -
  let ?s0 = "new_manager (Some empty_database)"
  let ?s1 = "new_manager (Some example_database)"
  have inv0: "one_per_secret (queued_patches ?s0)"
    by (simp add: queued_patches_def new_manager_def empty_database_def one_per_secret_def)
  have q1: "queued_patches ?s1 = [(''secret-A'', patch_A)]"
    by (simp add: queued_patches_def new_manager_def example_database_def)
  have inv1: "one_per_secret (queued_patches ?s1)"
    by (simp add: q1 one_per_secret_def patch_A_def)
  have idle1: "\<not> savingTicketPatches ?s1" by (simp add: new_manager_def)
  have none0: "queued_patch ''secret-A'' ?s0 = None"
    by (simp add: queued_patch_def queued_patches_def new_manager_def empty_database_def)
  have secrets: "patch_secret patch_A = Some ''secret-A''" "patch_secret patch_A' = Some ''secret-A''"
    "secret ticket_A = ''secret-A''"
    by (simp_all add: patch_A_def patch_A'_def ticket_A_def)
  show ?thesis
    using ticketPatches_one_per_key [of ?s0 "[patch_A]" "[]" True "Inl NetworkError" patch_A patch_A
        "''secret-A''" patch_A' "[Inr [], Inl NetworkError, Inr [ticket_A]]"]
      ticketPatches_one_per_key [of ?s1 "[patch_A]" "[ticket_A]" True "Inr [ticket_A]" patch_A patch_A
        "''secret-A''" patch_A' "[]"]
      inv0 inv1 idle1 none0 ready_empty ready_example
    by (simp add: q1 secrets one_per_secret_Nil)
qed

section \<open>The page loops: facts\<close>

lemma storeSettingKey_ready:
  assumes db: "indexedDB s = Some db" and sch: "schema db"
    and ss: "settings db = Some ss"
  shows "storeSettingKey key v s =
      (Inr (), (emit (Transaction [''settings''] True) (s\<lparr> database := True \<rparr>))
         \<lparr> indexedDB := Some (db\<lparr> settings := Some (ss\<lparr> records := put_record key v (records ss) \<rparr>) \<rparr>) \<rparr>)"
proof -
  have "keyPath ss = None" using sch ss by (simp add: schema_def)
  then show ?thesis
    by (simp add: storeSettingKey_def getDatabase_ready [OF db sch] ss store_put_key_def)
qed

lemma readSettingKey_ready:
  assumes db: "indexedDB s = Some db" and sch: "schema db"
    and ss: "settings db = Some ss"
  shows "readSettingKey key s =
      (Inr (store_get key ss), emit (Transaction [''settings''] False) (s\<lparr> database := True \<rparr>))"
  by (simp add: readSettingKey_def getDatabase_ready [OF db sch] ss)

lemma put_each_orders:
  "keyPath st = Some ''id'' \<Longrightarrow>
   put_each order_key rs st =
     (Inr (), st\<lparr> records := fold (\<lambda>v. put_record (order_id v) v) rs (records st) \<rparr>)"
  by (induction rs arbitrary: st) (simp_all add: store_put_def order_key_def)

lemma storeOrders_ready:
  assumes db: "indexedDB s = Some db" and sch: "schema db"
    and os: "orders db = Some os"
  shows "storeOrders rs s =
      (Inr (), (emit (Transaction [''orders''] True) (s\<lparr> database := True \<rparr>))
         \<lparr> indexedDB := Some (db\<lparr> orders := Some (os\<lparr> records :=
               fold (\<lambda>v. put_record (order_id v) v) rs (records os) \<rparr>) \<rparr>) \<rparr>)"
proof -
  have "keyPath os = Some ''id''" using sch os by (simp add: schema_def)
  then show ?thesis
    by (simp add: storeOrders_def getDatabase_ready [OF db sch] os put_each_orders)
qed

lemma ready_fields [simp]:
  "ready (emit e s) = ready s"
  "ready (s\<lparr> isLoadingOrders := b \<rparr>) = ready s"
  "ready (s\<lparr> isLoadingTickets := b \<rparr>) = ready s"
  "ready (s\<lparr> savingTicketPatches := b \<rparr>) = ready s"
  "ready (s\<lparr> lastFetchedOrder := oc \<rparr>) = ready s"
  "ready (s\<lparr> lastFetchedTicket := tc \<rparr>) = ready s"
  "ready (s\<lparr> database := b \<rparr>) = ready s"
  "ready (s\<lparr> effects := es \<rparr>) = ready s"
  by (simp_all add: ready_def emit_def)

lemma run_tasks_Nil [simp]: "run_tasks [] s = s"
  by (simp add: run_tasks_def)

lemma orders_page_eq:
  "orders_page rs s =
     (emit (OrdersFetched rs)
        (s\<lparr> lastFetchedOrder := Object \<lparr> lastOrder_updatedAt = order_updatedAt (last rs),
                                          lastOrder_number = order_number (last rs) \<rparr> \<rparr>),
      [StoreOrders rs,
       StoreSettingKey ''lastFetchedOrder''
         (OrderCursor \<lparr> lastOrder_updatedAt = order_updatedAt (last rs),
                        lastOrder_number = order_number (last rs) \<rparr>)])"
  by (simp add: orders_page_def setlastFetchedOrder_def Let_def)

lemma tickets_page_eq:
  "tickets_page rs s =
     (s\<lparr> lastFetchedTicket := Object \<lparr> lastTicket_updatedAt = ticket_updatedAt (last rs),
                                        lastTicket_id = ticket_id (last rs) \<rparr> \<rparr>,
      [StoreTickets rs True,
       StoreSettingKey ''lastFetchedTicket''
         (TicketCursor \<lparr> lastTicket_updatedAt = ticket_updatedAt (last rs),
                         lastTicket_id = ticket_id (last rs) \<rparr>)])"
  by (simp add: tickets_page_def setLastFetchedTicket_def Let_def)





lemma storeTickets_loop_keyPath:
  assumes "keyPath ts = Some ''secret''"
  shows "\<exists>ts' ps'. storeTickets_loop cp data ts ps = (Inr (), ts', ps')
         \<and> keyPath ts' = Some ''secret'' \<and> keyPath ps' = keyPath ps"
  using assms
proof (induction data arbitrary: ts ps)
  case Nil
  then show ?case by simp
next
  case (Cons t data)
  let ?ts1 = "ts\<lparr> records := put_record (secret t) t (records ts) \<rparr>"
  let ?ps1 = "if cp then store_delete (secret t) ps else ps"
  have put: "store_put ticket_key t ts = Inr ?ts1"
    using Cons.prems by (simp add: store_put_def ticket_key_def)
  have kp: "keyPath ?ts1 = Some ''secret''" using Cons.prems by simp
  have kq: "keyPath ?ps1 = keyPath ps" by (simp add: store_delete_def)
  from Cons.IH [OF kp, of ?ps1] kq put show ?case by simp
qed

text \<open>
  What has been started keeps the database in its schema, and touches neither the
  cursors in memory nor the guards.
\<close>

lemma run_task_ready:
  assumes rdy: "ready s"
  shows "ready (run_task task s)"
proof -
  from rdy obtain db os ts ps ss where db: "indexedDB s = Some db" and sch: "schema db"
    and os: "orders db = Some os" and ko: "keyPath os = Some ''id''"
    and ts: "tickets db = Some ts" and kt: "keyPath ts = Some ''secret''"
    and ps: "ticketPatches db = Some ps" and kp: "keyPath ps = Some ''secret''"
    and ss: "settings db = Some ss" and ks: "keyPath ss = None"
    by (elim readyE)
  show ?thesis
  proof (cases task)
    case (StoreOrders rs)
    then show ?thesis
      using sch ko by (simp add: storeOrders_ready [OF db sch os] ready_def schema_def emit_def)
  next
    case (StoreTickets rs cp)
    from storeTickets_loop_keyPath [OF kt, of cp rs ps] obtain ts' ps' where
      loop: "storeTickets_loop cp rs ts ps = (Inr (), ts', ps')"
      and kt': "keyPath ts' = Some ''secret''" and kp': "keyPath ps' = keyPath ps"
      by blast
    show ?thesis
      using sch kt' kp' kp
      by (simp add: StoreTickets storeTickets_ready [OF db sch ts ps loop] ready_def schema_def
          emit_def)
  next
    case (StoreSettingKey key v)
    then show ?thesis
      using sch ks by (simp add: storeSettingKey_ready [OF db sch ss] ready_def schema_def emit_def)
  qed
qed

lemma run_tasks_ready: "ready s \<Longrightarrow> ready (run_tasks started s)"
  unfolding run_tasks_def by (induction started arbitrary: s) (simp_all add: run_task_ready)

lemma getDatabase_cursors:
  assumes "getDatabase s = (r, s1)"
  shows "lastFetchedTicket s1 = lastFetchedTicket s" and "lastFetchedOrder s1 = lastFetchedOrder s"
  using assms
  by (auto simp: getDatabase_def split: if_splits option.splits sum.splits)

lemma run_task_fields:
  "lastFetchedTicket (run_task task s) = lastFetchedTicket s"
  "lastFetchedOrder (run_task task s) = lastFetchedOrder s"
  "isLoadingTickets (run_task task s) = isLoadingTickets s"
  "isLoadingOrders (run_task task s) = isLoadingOrders s"
  "savingTicketPatches (run_task task s) = savingTicketPatches s"
  by (cases task;
      auto simp: storeOrders_def storeTickets_def storeSettingKey_def emit_def Let_def
        split: prod.splits sum.splits option.splits
        dest: getDatabase_guards getDatabase_cursors)+

lemma run_tasks_fields:
  "lastFetchedTicket (run_tasks started s) = lastFetchedTicket s"
  "lastFetchedOrder (run_tasks started s) = lastFetchedOrder s"
  "isLoadingTickets (run_tasks started s) = isLoadingTickets s"
  "isLoadingOrders (run_tasks started s) = isLoadingOrders s"
  "savingTicketPatches (run_tasks started s) = savingTicketPatches s"
  unfolding run_tasks_def
  by (induction started arbitrary: s; simp add: run_task_fields)+

text \<open>
  What a page of tickets has started, once it has run on a database in its schema: one
  transaction that writes the tickets and one that writes the cursor.
\<close>

lemma tickets_writes_ready:
  fixes s :: manager and rs :: "ticket list" and c :: ticket_cursor
  assumes rdy: "ready s"
  defines "t \<equiv> run_tasks [StoreTickets rs True, StoreSettingKey ''lastFetchedTicket'' (TicketCursor c)] s"
  shows "ready t"
    and "persisted_setting ''lastFetchedTicket'' t = Some (TicketCursor c)"
    and "effects t = effects s @ [Transaction [''tickets'', ''ticketPatches''] True,
                                  Transaction [''settings''] True]"
proof -
  from rdy obtain db ts ps ss where db: "indexedDB s = Some db" and sch: "schema db"
    and ts: "tickets db = Some ts" and kt: "keyPath ts = Some ''secret''"
    and ps: "ticketPatches db = Some ps" and kp: "keyPath ps = Some ''secret''"
    and ss: "settings db = Some ss"
    by (elim readyE)
  let ?ps' = "ps\<lparr> records := filter (\<lambda>r. fst r \<notin> secret ` set rs) (records ps) \<rparr>"
  from storeTickets_loop_secret [OF kt, of rs ps] obtain ts' where
    loop: "storeTickets_loop True rs ts ps = (Inr (), ts', ?ps')"
    and kt': "keyPath ts' = Some ''secret''"
    by blast
  let ?db1 = "db\<lparr> tickets := Some ts', ticketPatches := Some ?ps' \<rparr>"
  let ?s1 = "snd (storeTickets rs True s)"
  have s1: "?s1 = (emit (Transaction [''tickets'', ''ticketPatches''] True) (s\<lparr> database := True \<rparr>))
         \<lparr> indexedDB := Some ?db1 \<rparr>"
    by (simp add: storeTickets_ready [OF db sch ts ps loop])
  have db1: "indexedDB ?s1 = Some ?db1" by (simp add: s1)
  have sch1: "schema ?db1" using sch kt' kp by (simp add: schema_def)
  have ss1: "settings ?db1 = Some ss" using ss by simp
  note put = storeSettingKey_ready [OF db1 sch1 ss1, of "''lastFetchedTicket''" "TicketCursor c"]
  have t: "t =
        (emit (Transaction [''settings''] True) (?s1\<lparr> database := True \<rparr>))
           \<lparr> indexedDB := Some (?db1\<lparr> settings := Some (ss\<lparr> records :=
                 put_record ''lastFetchedTicket'' (TicketCursor c) (records ss) \<rparr>) \<rparr>) \<rparr>"
    unfolding t_def run_tasks_def by (simp add: put)
  show "ready t"
    using sch kt' kp ss unfolding t by (simp add: ready_def schema_def emit_def)
  show "persisted_setting ''lastFetchedTicket'' t = Some (TicketCursor c)"
    unfolding t by (simp add: persisted_setting_def emit_def store_get_def map_of_put_record)
  show "effects t = effects s @ [Transaction [''tickets'', ''ticketPatches''] True,
                                  Transaction [''settings''] True]"
    unfolding t by (simp add: emit_def s1)
qed

lemma loadLastFetchedTicket_persisted:
  assumes rdy: "ready s"
    and per: "persisted_setting ''lastFetchedTicket'' s = Some (TicketCursor c)"
  shows "loadLastFetchedTicket s =
      (emit (Transaction [''settings''] False) (s\<lparr> database := True \<rparr>))\<lparr> lastFetchedTicket := Object c \<rparr>"
proof -
  from rdy obtain db ss where db: "indexedDB s = Some db" and sch: "schema db"
    and ss: "settings db = Some ss"
    by (elim readyE)
  from per have "store_get ''lastFetchedTicket'' ss = Some (TicketCursor c)"
    by (simp add: persisted_setting_def db ss)
  then show ?thesis
    by (simp add: loadLastFetchedTicket_def readSettingKey_ready [OF db sch ss])
qed

lemma loadLastFetchedTicket_ready:
  assumes rdy: "ready s"
  shows "ready (loadLastFetchedTicket s)"
proof -
  from rdy obtain db ss where db: "indexedDB s = Some db" and sch: "schema db"
    and ss: "settings db = Some ss"
    by (elim readyE)
  show ?thesis
    using rdy
    by (simp add: loadLastFetchedTicket_def readSettingKey_ready [OF db sch ss]
        split: option.splits setting.splits)
qed

section \<open>The cursor of the tickets\<close>

lemma ticket_cursor_kept_run:
  assumes kept: "ticket_cursor_kept c started s"
    and db: "indexedDB t = indexedDB s" and cur: "lastFetchedTicket t = lastFetchedTicket s"
  shows "ticket_cursor_kept c [] (run_tasks started t)"
proof -
  from kept have rdy: "ready t" and obj: "lastFetchedTicket t = Object c"
    using db cur by (simp_all add: ticket_cursor_kept_def ready_def)
  show ?thesis
  proof (cases "started = []")
    case True
    with kept have "persisted_setting ''lastFetchedTicket'' t = Some (TicketCursor c)"
      using db by (simp add: ticket_cursor_kept_def persisted_setting_def)
    with True rdy obj show ?thesis by (simp add: ticket_cursor_kept_def run_tasks_def)
  next
    case False
    with kept obtain rs where
      st: "started = [StoreTickets rs True, StoreSettingKey ''lastFetchedTicket'' (TicketCursor c)]"
      by (auto simp: ticket_cursor_kept_def)
    from tickets_writes_ready(1,2) [OF rdy, of rs c] obj show ?thesis
      by (simp add: ticket_cursor_kept_def st run_tasks_fields)
  qed
qed

lemma ticket_cursor_kept_page:
  assumes "ready s"
  shows "ticket_cursor_kept
           \<lparr> lastTicket_updatedAt = ticket_updatedAt (last rs), lastTicket_id = ticket_id (last rs) \<rparr>
           (snd (tickets_page rs s)) (fst (tickets_page rs s))"
  using assms by (simp add: ticket_cursor_kept_def tickets_page_eq)

lemma tickets_loop_cursor:
  fixes server :: tickets_server and query :: "tickets_query option"
  assumes rdy: "ready s"
    and loop: "tickets_loop retry server query started s = Some (r, s1, started1)"
  defines "pages \<equiv> (case query of None \<Rightarrow> [] | Some q \<Rightarrow> committed_pages server)"
  shows "if pages = [] then (\<forall>c. ticket_cursor_kept c started s \<longrightarrow> ticket_cursor_kept c started1 s1)
         else ticket_cursor_kept
                \<lparr> lastTicket_updatedAt = ticket_updatedAt (last (last pages)),
                  lastTicket_id = ticket_id (last (last pages)) \<rparr> started1 s1"
  using rdy loop unfolding pages_def
proof (induction server arbitrary: query started s)
  case Nil
  then show ?case by (cases query) simp_all
next
  case (Cons answer server)
  show ?case
  proof (cases query)
    case None
    with Cons.prems show ?thesis by simp
  next
    case (Some q)
    let ?sa = "run_tasks started (emit (GetTickets q retry) s)"
    have rda: "ready ?sa" using Cons.prems(1) by (simp add: run_tasks_ready)
    have keep: "ticket_cursor_kept c [] ?sa" if "ticket_cursor_kept c started s" for c
      using ticket_cursor_kept_run [OF that, of "emit (GetTickets q retry) s"]
      by (simp add: emit_def)
    show ?thesis
    proof (cases answer)
      case (Inl e)
      with Cons.prems(2) Some have "s1 = ?sa" "started1 = []" by (simp_all add: Let_def)
      with Inl Some keep show ?thesis by simp
    next
      case (Inr response)
      show ?thesis
      proof (cases "results response = []")
        case True
        with Cons.prems(2) Some Inr have
          rest: "tickets_loop retry server (next_query response) [] ?sa = Some (r, s1, started1)"
          by (simp add: Let_def)
        from Cons.IH [OF rda rest] True Some Inr keep show ?thesis
          by (cases "next_query response") (auto split: if_splits)
      next
        case False
        let ?rs = "results response"
        let ?s2 = "fst (tickets_page ?rs ?sa)"
        let ?st = "snd (tickets_page ?rs ?sa)"
        from Cons.prems(2) Some Inr False have
          rest: "tickets_loop retry server (next_query response) ?st ?s2 = Some (r, s1, started1)"
          by (simp add: Let_def split: prod.splits)
        have rd2: "ready ?s2"
          using rda by (simp add: tickets_page_eq)
        note page = ticket_cursor_kept_page [OF rda, of ?rs]
        from Cons.IH [OF rd2 rest] False Some Inr page show ?thesis
          by (cases "next_query response") (auto split: if_splits)
      qed
    qed
  qed
qed

text \<open>
  Claim C1, as the code has it. Whatever the server answers, when a refresh of the
  tickets that passed its guard on a database in its schema has finished, normally or
  with the error of a request, and has committed at least one non-empty page, the
  cursor is, in memory and in the \<^verbatim>\<open>settings\<close> store under \<^verbatim>\<open>lastFetchedTicket\<close>, the
  \<^verbatim>\<open>updatedAt\<close> of the last ticket of the last page committed together with the \<^verbatim>\<open>id\<close>
  of that ticket. The request built from this cursor is the first one of a refresh
  without reset by a manager that loads it, such as the manager after a restart: it
  carries them as \<^verbatim>\<open>updatedSince\<close> and \<^verbatim>\<open>lastId\<close>.
\<close>

theorem fetchNewTickets_tie_break:
  assumes rdy: "ready s" and idle: "\<not> isLoadingTickets s"
    and run: "fetchNewTickets retry reset server s = Some (r, s')"
    and pages: "committed_pages server \<noteq> []"
  shows "lastFetchedTicket s' =
           Object \<lparr> lastTicket_updatedAt = ticket_updatedAt (last (last (committed_pages server))),
                    lastTicket_id = ticket_id (last (last (committed_pages server))) \<rparr>
       \<and> persisted_setting ''lastFetchedTicket'' s' =
           Some (TicketCursor
                  \<lparr> lastTicket_updatedAt = ticket_updatedAt (last (last (committed_pages server))),
                    lastTicket_id = ticket_id (last (last (committed_pages server))) \<rparr>)
       \<and> (\<exists>t'. fetchNewTickets retry' False [Inr \<lparr> results = [], next_query = None \<rparr>]
                  (new_manager (indexedDB s')) = Some (Inr (), t')
              \<and> effects t' =
                  [Transaction [''settings''] False,
                   GetTickets
                     \<lparr> tickets_updatedSince = Some (ticket_updatedAt (last (last (committed_pages server)))),
                       lastId = ticket_id (last (last (committed_pages server))) \<rparr> retry'])"
proof -
  let ?x = "last (last (committed_pages server))"
  let ?c = "\<lparr> lastTicket_updatedAt = ticket_updatedAt ?x, lastTicket_id = ticket_id ?x \<rparr>"
  let ?s1 = "s\<lparr> isLoadingTickets := True \<rparr>"
  let ?s2 = "if lastFetchedTicket ?s1 = Undefined then loadLastFetchedTicket ?s1 else ?s1"
  from run idle obtain s3 started where
    loop: "tickets_loop retry server (Some (tickets_first_query reset ?s2)) [] ?s2
             = Some (r, s3, started)"
    and s': "s' = run_tasks started (s3\<lparr> isLoadingOrders := False \<rparr>)"
    by (auto simp: fetchNewTickets_def Let_def split: option.splits)
  have rdy2: "ready ?s2" using rdy by (simp add: loadLastFetchedTicket_ready)
  from tickets_loop_cursor [OF rdy2 loop] pages
  have "ticket_cursor_kept ?c started s3" by simp
  from ticket_cursor_kept_run [OF this, of "s3\<lparr> isLoadingOrders := False \<rparr>"]
  have kept: "ticket_cursor_kept ?c [] s'" by (simp add: s')
  then have cur: "lastFetchedTicket s' = Object ?c"
    and per: "persisted_setting ''lastFetchedTicket'' s' = Some (TicketCursor ?c)"
    and rdy': "ready s'"
    by (simp_all add: ticket_cursor_kept_def)
  let ?fresh = "new_manager (indexedDB s')"
  let ?n = "?fresh\<lparr> isLoadingTickets := True \<rparr>"
  let ?q = "\<lparr> tickets_updatedSince = Some (ticket_updatedAt ?x), lastId = ticket_id ?x \<rparr>"
  have n0: "\<not> isLoadingTickets ?fresh" "lastFetchedTicket ?fresh = Undefined" "effects ?fresh = []"
    by (simp_all add: new_manager_def)
  have rn: "ready ?n" using rdy' by (simp add: ready_def new_manager_def)
  have pn: "persisted_setting ''lastFetchedTicket'' ?n = Some (TicketCursor ?c)"
    using per by (simp add: persisted_setting_def new_manager_def)
  note load = loadLastFetchedTicket_persisted [OF rn pn]
  have cur_n: "lastFetchedTicket (loadLastFetchedTicket ?n) = Object ?c"
    by (simp add: load emit_def)
  have restart: "fetchNewTickets retry' False [Inr \<lparr> results = [], next_query = None \<rparr>] ?fresh =
      Some (Inr (), (emit (GetTickets ?q retry') (loadLastFetchedTicket ?n))\<lparr> isLoadingOrders := False \<rparr>)"
    using n0(1,2) by (simp add: fetchNewTickets_def Let_def tickets_first_query_def cur_n)
  have eff: "effects ((emit (GetTickets ?q retry') (loadLastFetchedTicket ?n))\<lparr> isLoadingOrders := False \<rparr>) =
      [Transaction [''settings''] False, GetTickets ?q retry']"
    using n0(3) by (simp add: load emit_def)
  from cur per restart eff show ?thesis by simp
qed

lemma paged_refresh_eq:
  "paged_refresh = Some (Inr (),
     \<lparr> indexedDB = Some (empty_database\<lparr>
          tickets := Some \<lparr> keyPath = Some ''secret'',
                            records = [(''secret-A'', ticket_A), (''secret-C'', ticket_C)] \<rparr>,
          settings := Some \<lparr> keyPath = None, records = [(''lastFetchedTicket'',
             TicketCursor \<lparr> lastTicket_updatedAt = 1000, lastTicket_id = Some ''id-A'' \<rparr>)] \<rparr> \<rparr>),
       database = True, lastFetchedOrder = Undefined,
       lastFetchedTicket = Object \<lparr> lastTicket_updatedAt = 1000, lastTicket_id = Some ''id-A'' \<rparr>,
       isLoadingOrders = False, isLoadingTickets = True, savingTicketPatches = False,
       effects = [Transaction [''settings''] False,
                  GetTickets \<lparr> tickets_updatedSince = None, lastId = None \<rparr> False,
                  GetTickets \<lparr> tickets_updatedSince = Some 1000, lastId = None \<rparr> False,
                  Transaction [''tickets'', ''ticketPatches''] True,
                  Transaction [''settings''] True] \<rparr>)"
  by (simp add: paged_refresh_def fetchNewTickets_def new_manager_def loadLastFetchedTicket_def
      readSettingKey_def getDatabase_def indexedDB_open_def empty_database_def store_get_def
      emit_def tickets_first_query_def tickets_page_def run_tasks_def storeTickets_def store_put_def
      ticket_key_def put_record_def store_delete_def setLastFetchedTicket_def storeSettingKey_def
      store_put_key_def ticket_A_def ticket_C_def Let_def)

theorem fetchNewTickets_tie_break_witness:
  "map_option (\<lambda>r. lastFetchedTicket (snd r)) paged_refresh =
       Some (Object \<lparr> lastTicket_updatedAt = 1000, lastTicket_id = Some ''id-A'' \<rparr>)
   \<and> map_option (\<lambda>r. persisted_setting ''lastFetchedTicket'' (snd r)) paged_refresh =
       Some (Some (TicketCursor \<lparr> lastTicket_updatedAt = 1000, lastTicket_id = Some ''id-A'' \<rparr>))
   \<and> (\<exists>t'. map_option (\<lambda>r. fetchNewTickets True False [Inr \<lparr> results = [], next_query = None \<rparr>]
                              (new_manager (indexedDB (snd r)))) paged_refresh
               = Some (Some (Inr (), t'))
          \<and> effects t' =
              [Transaction [''settings''] False,
               GetTickets \<lparr> tickets_updatedSince = Some 1000, lastId = Some ''id-A'' \<rparr> True])"
proof -
  obtain s' where run: "paged_refresh = Some (Inr (), s')"
    by (simp add: paged_refresh_eq)
  have idle: "\<not> isLoadingTickets (new_manager (Some empty_database))"
    by (simp add: new_manager_def)
  have pages: "committed_pages
      [Inr \<lparr> results = [ticket_C, ticket_A],
             next_query = Some \<lparr> tickets_updatedSince = Some 1000, lastId = None \<rparr> \<rparr>,
       Inr \<lparr> results = [], next_query = None \<rparr>] = [[ticket_C, ticket_A]]"
    by simp
  show ?thesis
    using fetchNewTickets_tie_break [OF ready_empty idle run [unfolded paged_refresh_def], of True]
    by (simp add: pages run ticket_A_def)
qed

lemma first_refresh_eq:
  "first_refresh = Some (Inr (),
     \<lparr> indexedDB = Some (empty_database\<lparr>
          tickets := Some \<lparr> keyPath = Some ''secret'', records = [(''secret-A'', ticket_A)] \<rparr>,
          settings := Some \<lparr> keyPath = None, records = [(''lastFetchedTicket'',
             TicketCursor \<lparr> lastTicket_updatedAt = 1000, lastTicket_id = Some ''id-A'' \<rparr>)] \<rparr> \<rparr>),
       database = True, lastFetchedOrder = Undefined,
       lastFetchedTicket = Object \<lparr> lastTicket_updatedAt = 1000, lastTicket_id = Some ''id-A'' \<rparr>,
       isLoadingOrders = False, isLoadingTickets = True, savingTicketPatches = False,
       effects = [Transaction [''settings''] False,
                  GetTickets \<lparr> tickets_updatedSince = None, lastId = None \<rparr> False,
                  Transaction [''tickets'', ''ticketPatches''] True,
                  Transaction [''settings''] True] \<rparr>)"
  by (simp add: first_refresh_def fetchNewTickets_def new_manager_def loadLastFetchedTicket_def
      readSettingKey_def getDatabase_def indexedDB_open_def empty_database_def store_get_def
      emit_def tickets_first_query_def tickets_page_def run_tasks_def storeTickets_def store_put_def
      ticket_key_def put_record_def store_delete_def setLastFetchedTicket_def storeSettingKey_def
      store_put_key_def ticket_A_def Let_def)

lemma restarted_refresh_eq:
  "map_option (\<lambda>r. effects (snd r)) restarted_refresh =
     Some [Transaction [''settings''] False,
           GetTickets \<lparr> tickets_updatedSince = Some 1000, lastId = Some ''id-A'' \<rparr> False]"
  by (simp add: restarted_refresh_def after_first_refresh_def first_refresh_eq
      fetchNewTickets_def new_manager_def loadLastFetchedTicket_def
      readSettingKey_def getDatabase_def indexedDB_open_def empty_database_def store_get_def
      emit_def tickets_first_query_def run_tasks_def Let_def)

text \<open>
  Claim C1 as stated fails twice. The tie-break is not the secret: after the first
  refresh of a new manager, answered with one page holding a ticket with id \<open>id-A\<close> and
  secret \<open>secret-A\<close>, the cursor holds \<open>id-A\<close> and not the secret, and the request a
  restarted manager builds from it carries \<open>id-A\<close> as \<^verbatim>\<open>lastId\<close>. And the next page
  request of a refresh is not built from the cursor: when the server answers the page
  \<open>[ticket_C, ticket_A]\<close> with a next query that has no \<^verbatim>\<open>lastId\<close>, the second request
  is that query, and it carries neither the secret nor the id of the last ticket.
\<close>

theorem tie_break_is_not_secret:
  "map_option (\<lambda>r. lastFetchedTicket (snd r)) first_refresh =
     Some (Object \<lparr> lastTicket_updatedAt = 1000, lastTicket_id = Some ''id-A'' \<rparr>)
   \<and> map_option (\<lambda>r. lastFetchedTicket (snd r)) first_refresh \<noteq>
     Some (Object \<lparr> lastTicket_updatedAt = ticket_updatedAt ticket_A,
                     lastTicket_id = Some (secret ticket_A) \<rparr>)
   \<and> map_option (\<lambda>r. persisted_setting ''lastFetchedTicket'' (snd r)) first_refresh \<noteq>
     Some (Some (TicketCursor \<lparr> lastTicket_updatedAt = ticket_updatedAt ticket_A,
                                 lastTicket_id = Some (secret ticket_A) \<rparr>))
   \<and> map_option (\<lambda>r. effects (snd r)) restarted_refresh =
     Some [Transaction [''settings''] False,
           GetTickets \<lparr> tickets_updatedSince = Some 1000, lastId = Some ''id-A'' \<rparr> False]
   \<and> map_option (\<lambda>r. effects (snd r)) paged_refresh =
     Some [Transaction [''settings''] False,
           GetTickets \<lparr> tickets_updatedSince = None, lastId = None \<rparr> False,
           GetTickets \<lparr> tickets_updatedSince = Some 1000, lastId = None \<rparr> False,
           Transaction [''tickets'', ''ticketPatches''] True,
           Transaction [''settings''] True]"
  by (simp add: first_refresh_eq restarted_refresh_eq paged_refresh_eq ticket_A_def
      persisted_setting_def empty_database_def store_get_def)

section \<open>The guard of the refresh of the tickets\<close>

lemma tickets_loop_guards:
  "tickets_loop retry server query started s = Some (r, s', started') \<Longrightarrow>
   isLoadingTickets s' = isLoadingTickets s"
proof (induction server arbitrary: query started s)
  case Nil
  then show ?case by (cases query) simp_all
next
  case (Cons answer server)
  show ?case
  proof (cases query)
    case None
    with Cons.prems show ?thesis by simp
  next
    case (Some q)
    let ?sa = "run_tasks started (emit (GetTickets q retry) s)"
    have sa: "isLoadingTickets ?sa = isLoadingTickets s"
      by (simp add: run_tasks_fields emit_def)
    show ?thesis
    proof (cases answer)
      case (Inl e)
      with Cons.prems Some sa show ?thesis by (simp add: Let_def)
    next
      case (Inr response)
      show ?thesis
      proof (cases "results response = []")
        case True
        with Cons.prems Some Inr have
          "tickets_loop retry server (next_query response) [] ?sa = Some (r, s', started')"
          by (simp add: Let_def)
        from Cons.IH [OF this] sa show ?thesis by simp
      next
        case False
        let ?rs = "results response"
        from Cons.prems Some Inr False have
          "tickets_loop retry server (next_query response) (snd (tickets_page ?rs ?sa))
             (fst (tickets_page ?rs ?sa)) = Some (r, s', started')"
          by (simp add: Let_def split: prod.splits)
        from Cons.IH [OF this] sa show ?thesis
          by (simp add: tickets_page_eq)
      qed
    qed
  qed
qed

lemma loadLastFetchedTicket_guards:
  "isLoadingTickets (loadLastFetchedTicket s) = isLoadingTickets s"
  by (auto simp: loadLastFetchedTicket_def readSettingKey_def emit_def
      split: prod.splits sum.splits option.splits setting.splits dest: getDatabase_guards(1))

text \<open>
  In general: a refresh of the tickets that passes the guard and finishes, normally or
  with an error, leaves \<^verbatim>\<open>isLoadingTickets\<close> set.
\<close>

lemma fetchNewTickets_keeps_guard_set:
  assumes "\<not> isLoadingTickets s" and "fetchNewTickets retry reset server s = Some (r, s')"
  shows "isLoadingTickets s'"
proof -
  let ?s1 = "s\<lparr> isLoadingTickets := True \<rparr>"
  let ?s2 = "if lastFetchedTicket ?s1 = Undefined then loadLastFetchedTicket ?s1 else ?s1"
  from assms obtain s3 started where
    loop: "tickets_loop retry server (Some (tickets_first_query reset ?s2)) [] ?s2
             = Some (r, s3, started)"
    and s': "s' = run_tasks started (s3\<lparr> isLoadingOrders := False \<rparr>)"
    by (auto simp: fetchNewTickets_def Let_def split: option.splits)
  from tickets_loop_guards [OF loop] have "isLoadingTickets s3 = isLoadingTickets ?s2" .
  then show ?thesis by (simp add: s' run_tasks_fields loadLastFetchedTicket_guards)
qed

text \<open>
  Claim C2 at a concrete refresh. The first refresh of the tickets of a new manager
  finishes normally, and \<^verbatim>\<open>isLoadingTickets\<close> is still set afterwards (the \<^verbatim>\<open>finally\<close>
  block cleared \<^verbatim>\<open>isLoadingOrders\<close>); the next refresh returns at the guard without a
  request, though the server has a new ticket. So the guard of the tickets is not
  false after a refresh that finished, which is what the claim says of both streams.
\<close>

theorem fetchNewTickets_leaves_guard_set:
  "map_option fst first_refresh = Some (Inr ())
   \<and> isLoadingTickets after_first_refresh
   \<and> \<not> isLoadingOrders after_first_refresh
   \<and> fetchNewTickets False False [Inr \<lparr> results = [ticket_C], next_query = None \<rparr>]
        after_first_refresh = Some (Inr (), after_first_refresh)"
proof -
  have run: "first_refresh = Some (Inr (), after_first_refresh)"
    by (simp add: after_first_refresh_def first_refresh_eq)
  have idle: "\<not> isLoadingTickets (new_manager (Some empty_database))"
    by (simp add: new_manager_def)
  from fetchNewTickets_keeps_guard_set [OF idle run [unfolded first_refresh_def]]
  have stuck: "isLoadingTickets after_first_refresh" .
  have orders: "\<not> isLoadingOrders after_first_refresh"
    by (simp add: after_first_refresh_def first_refresh_eq)
  from stuck have noop:
    "fetchNewTickets False False [Inr \<lparr> results = [ticket_C], next_query = None \<rparr>]
        after_first_refresh = Some (Inr (), after_first_refresh)"
    by (simp add: fetchNewTickets_def)
  have "map_option fst first_refresh = Some (Inr ())"
    by (simp add: run)
  with stuck orders noop show ?thesis by blast
qed

section \<open>The guard of the refresh of the orders\<close>

text \<open>
  A refresh of the orders that passes the guard and finishes, normally or with the
  error of a request, leaves \<^verbatim>\<open>isLoadingOrders\<close> clear.
\<close>

theorem fetchNewOrders_clears_guard:
  assumes "\<not> isLoadingOrders s" and "fetchNewOrders retry reset server s = Some (r, s')"
  shows "\<not> isLoadingOrders s'"
  using assms by (auto simp: fetchNewOrders_def Let_def run_tasks_fields split: option.splits)

lemma interrupted_refresh_eq:
  "interrupted_refresh = Some (Inl NetworkError,
     \<lparr> indexedDB = Some (empty_database\<lparr>
          orders := Some \<lparr> keyPath = Some ''id'', records = [(''1'', order_1)] \<rparr>,
          settings := Some \<lparr> keyPath = None, records = [(''lastFetchedOrder'',
             OrderCursor \<lparr> lastOrder_updatedAt = 1000, lastOrder_number = Some 1 \<rparr>)] \<rparr> \<rparr>),
       database = True,
       lastFetchedOrder = Object \<lparr> lastOrder_updatedAt = 1000, lastOrder_number = Some 1 \<rparr>,
       lastFetchedTicket = Undefined,
       isLoadingOrders = False, isLoadingTickets = False, savingTicketPatches = False,
       effects = [Transaction [''settings''] False,
                  GetOrders \<lparr> orders_updatedSince = None, afterNumber = None \<rparr> False,
                  OrdersFetched [order_1],
                  GetOrders \<lparr> orders_updatedSince = Some 1000, afterNumber = Some 1 \<rparr> False,
                  Transaction [''orders''] True,
                  Transaction [''settings''] True] \<rparr>)"
  by (simp add: interrupted_refresh_def fetchNewOrders_def new_manager_def loadLastFetchedOrder_def
      readSettingKey_def getDatabase_def indexedDB_open_def empty_database_def store_get_def
      emit_def orders_first_query_def orders_page_def run_tasks_def storeOrders_def store_put_def
      order_key_def put_record_def setlastFetchedOrder_def storeSettingKey_def
      store_put_key_def order_1_def Let_def)

theorem fetchNewOrders_clears_guard_witness:
  "map_option fst interrupted_refresh = Some (Inl NetworkError)
   \<and> map_option (\<lambda>r. isLoadingOrders (snd r)) interrupted_refresh = Some False"
proof -
  have idle: "\<not> isLoadingOrders (new_manager (Some empty_database))"
    by (simp add: new_manager_def)
  obtain s' where run: "interrupted_refresh = Some (Inl NetworkError, s')"
    by (simp add: interrupted_refresh_eq)
  from fetchNewOrders_clears_guard [OF idle run [unfolded interrupted_refresh_def]]
  show ?thesis by (simp add: run)
qed

section \<open>A refresh without a local database\<close>

text \<open>
  When the browser has no database, the refresh of the orders of claim C8 still runs
  its two requests and finishes normally: it opens no transaction, advances the cursor
  in memory, publishes the page and clears its guard. Nothing is persisted, so a new
  manager starts again from the first query without a cursor.
\<close>

lemma getDatabase_unavailable: "indexedDB s = None \<Longrightarrow> getDatabase s = (Inl not_supported, s)"
  by (simp add: getDatabase_def indexedDB_open_def)

theorem fetchNewOrders_without_storage:
  assumes none: "indexedDB s = None" and idle: "\<not> isLoadingOrders s"
  shows "\<exists>s' q0.
      fetchNewOrders retry reset
        [Inr \<lparr> results = [v], next_query = Some q1 \<rparr>, Inr \<lparr> results = [], next_query = None \<rparr>] s
        = Some (Inr (), s')
      \<and> effects s' = effects s @ [GetOrders q0 retry, OrdersFetched [v], GetOrders q1 retry]
      \<and> lastFetchedOrder s' =
          Object \<lparr> lastOrder_updatedAt = order_updatedAt v, lastOrder_number = order_number v \<rparr>
      \<and> indexedDB s' = None
      \<and> \<not> isLoadingOrders s'
      \<and> orders_first_query False (loadLastFetchedOrder (new_manager (indexedDB s'))) =
          \<lparr> orders_updatedSince = None, afterNumber = None \<rparr>"
proof -
  let ?s1 = "s\<lparr> isLoadingOrders := True \<rparr>"
  have load: "loadLastFetchedOrder ?s1 = ?s1\<lparr> lastFetchedOrder := Null \<rparr>"
    using none by (simp add: loadLastFetchedOrder_def readSettingKey_def getDatabase_unavailable)
  have writes: "run_tasks [StoreOrders [v], StoreSettingKey k c] t = t"
    if "indexedDB t = None" for t k c
    using that
    by (simp add: run_tasks_def storeOrders_def storeSettingKey_def getDatabase_unavailable)
  have restart: "orders_first_query False (loadLastFetchedOrder (new_manager None)) =
          \<lparr> orders_updatedSince = None, afterNumber = None \<rparr>"
    by (simp add: loadLastFetchedOrder_def readSettingKey_def getDatabase_unavailable
        new_manager_def orders_first_query_def)
  show ?thesis
    using none idle
    by (cases "\<not> reset \<and> lastFetchedOrder s = Undefined")
      (auto simp: fetchNewOrders_def Let_def load orders_page_eq
         writes emit_def restart run_tasks_def [of "[]"])
qed

theorem fetchNewOrders_without_storage_witness:
  "\<exists>s' q0.
      fetchNewOrders False False
        [Inr \<lparr> results = [order_1], next_query = Some \<lparr> orders_updatedSince = Some 1000, afterNumber = Some 1 \<rparr> \<rparr>,
         Inr \<lparr> results = [], next_query = None \<rparr>] (new_manager None)
        = Some (Inr (), s')
      \<and> effects s' = [GetOrders q0 False, OrdersFetched [order_1],
            GetOrders \<lparr> orders_updatedSince = Some 1000, afterNumber = Some 1 \<rparr> False]
      \<and> lastFetchedOrder s' = Object \<lparr> lastOrder_updatedAt = 1000, lastOrder_number = Some 1 \<rparr>
      \<and> indexedDB s' = None
      \<and> \<not> isLoadingOrders s'"
  using fetchNewOrders_without_storage [of "new_manager None" False False order_1
      "\<lparr> orders_updatedSince = Some 1000, afterNumber = Some 1 \<rparr>"]
  by (auto simp: new_manager_def order_1_def)

section \<open>The first open\<close>

text \<open>
  Opening brings the database into its schema: a database that does not exist yet is
  created, and one of an older version that has the four stores is emptied.
\<close>

lemma ready_after_open:
  assumes "indexedDB s = Some db" and "\<not> database s" and "idb_version db < Version"
    and "db = no_database \<or>
         (1 \<le> idb_version db
          \<and> map_option keyPath (orders db) = Some (Some ''id'')
          \<and> map_option keyPath (tickets db) = Some (Some ''secret'')
          \<and> map_option keyPath (ticketPatches db) = Some (Some ''secret'')
          \<and> map_option keyPath (settings db) = Some None)"
  shows "ready (snd (getDatabase s))"
  using assms
  by (auto simp: getDatabase_def indexedDB_open_def onupgradeneeded_def createObjectStore_def
      clear_store_def no_database_def ready_def schema_def split: option.splits)

end
